theory Spec2Isabelle
  imports Complex_Main
begin

section \<open>Numeric vectors\<close>

text \<open>
  An element of a \<^verbatim>\<open>NumericVector\<close> is a double: a concrete number or the missing
  value \<^verbatim>\<open>NA_REAL\<close>. \<^verbatim>\<open>NA_REAL\<close> is an IEEE not-a-number: every arithmetic operation
  with it as an operand yields it again, and every comparison with it is false.

  For the cumulative, difference and range kernels a concrete number is idealised as a
  real (no rounding, no overflow to infinity): what is proved about them is which
  operation is applied to which elements, and the order of numbers. The variance kernel
  returns the value of a rounded computation; its arithmetic is not idealised but a
  parameter (see the section on variance).
\<close>

datatype double = Num real | NA_REAL

fun is_na :: "double \<Rightarrow> bool" where
  "is_na NA_REAL = True"
| "is_na (Num a) = False"

fun dadd :: "double \<Rightarrow> double \<Rightarrow> double" where
  "dadd (Num a) (Num b) = Num (a + b)"
| "dadd _ _ = NA_REAL"

fun dsub :: "double \<Rightarrow> double \<Rightarrow> double" where
  "dsub (Num a) (Num b) = Num (a - b)"
| "dsub _ _ = NA_REAL"

fun dmul :: "double \<Rightarrow> double \<Rightarrow> double" where
  "dmul (Num a) (Num b) = Num (a * b)"
| "dmul _ _ = NA_REAL"

fun dless :: "double \<Rightarrow> double \<Rightarrow> bool" where
  "dless (Num a) (Num b) = (a < b)"
| "dless _ _ = False"

fun dle :: "double \<Rightarrow> double \<Rightarrow> bool" where
  "dle (Num a) (Num b) = (a \<le> b)"
| "dle _ _ = False"

text \<open>\<^verbatim>\<open>std::max(a, b)\<close> is \<^verbatim>\<open>(a < b) ? b : a\<close>; \<^verbatim>\<open>std::min(a, b)\<close> is \<^verbatim>\<open>(b < a) ? b : a\<close>.\<close>

definition std_max :: "double \<Rightarrow> double \<Rightarrow> double" where
  "std_max a b = (if dless a b then b else a)"

definition std_min :: "double \<Rightarrow> double \<Rightarrow> double" where
  "std_min a b = (if dless b a then b else a)"

text \<open>
  Failures. \<^verbatim>\<open>stop(msg)\<close> aborts the call with an error message. The subscript operator
  of a vector is unchecked, so a subscript outside \<open>0 ..< size\<close> is undefined behaviour:
  the model ends the call there with \<open>OutOfBounds\<close>. Allocating a vector of negative
  length is refused by the runtime.

  The \<^verbatim>\<open>int\<close> variables of the kernels (\<^verbatim>\<open>n\<close>, \<^verbatim>\<open>i\<close>, \<^verbatim>\<open>lag\<close>) are modelled as
  unbounded integers. A vector has fewer than \<open>2^31\<close> elements, and for a lag of at
  least \<open>- 1\<close> the values \<open>n - lag\<close>, \<open>i - lag\<close> and \<open>i + 1\<close> of a kernel stay
  within the 32-bit range, so nothing wraps around.
\<close>

datatype error = Stop string | OutOfBounds int | NegativeLength int

definition InvalidArgument :: error where
  "InvalidArgument = Stop ''`lag` must be less than `length(x)`.''"

definition EmptyInput :: error where
  "EmptyInput = Stop ''`length(x)` must be greater than 0.''"

definition missing_warning :: string where
  "missing_warning = ''Warning: Contains missing values.''"

text \<open>\<^verbatim>\<open>x.size()\<close>, \<^verbatim>\<open>x[i]\<close>, \<^verbatim>\<open>out[i] = v\<close> and \<^verbatim>\<open>NumericVector out(m)\<close> (zero-filled).\<close>

definition vsize :: "'a list \<Rightarrow> int" where
  "vsize x = int (length x)"

definition vget :: "'a list \<Rightarrow> int \<Rightarrow> error + 'a" where
  "vget x i = (if 0 \<le> i \<and> i < vsize x then Inr (x ! nat i) else Inl (OutOfBounds i))"

definition vset :: "double list \<Rightarrow> int \<Rightarrow> double \<Rightarrow> error + double list" where
  "vset out i v = (if 0 \<le> i \<and> i < vsize out then Inr (out[nat i := v]) else Inl (OutOfBounds i))"

definition alloc :: "int \<Rightarrow> error + double list" where
  "alloc m = (if m < 0 then Inl (NegativeLength m) else Inr (replicate (nat m) (Num 0)))"

text \<open>The value a call returns together with the warnings it signalled, in order.\<close>

record result =
  vec :: "double list"
  warnings :: "string list"

section \<open>Cumulative maximum, minimum and product\<close>

text \<open>
  Each kernel allocates \<^verbatim>\<open>out(n)\<close>, stores \<^verbatim>\<open>out[0] = x[0]\<close> and runs
  \<^verbatim>\<open>for (int i = 1; i < n; ++i) out[i] = op(out[i - 1], x[i])\<close>.
\<close>

function cummaxC_loop :: "double list \<Rightarrow> int \<Rightarrow> int \<Rightarrow> double list \<Rightarrow> error + double list" where
  "cummaxC_loop x n i out =
     (if i < n then
        (case vget out (i - 1) of Inl e \<Rightarrow> Inl e | Inr p \<Rightarrow>
        (case vget x i of Inl e \<Rightarrow> Inl e | Inr xi \<Rightarrow>
        (case vset out i (std_max p xi) of Inl e \<Rightarrow> Inl e | Inr out' \<Rightarrow>
           cummaxC_loop x n (i + 1) out')))
      else Inr out)"
  by pat_completeness auto
termination
  by (relation "measure (\<lambda>(x, n, i, out). nat (n - i))") auto

definition cummaxC :: "double list \<Rightarrow> error + double list" where
  "cummaxC x =
     (let n = vsize x in
      case alloc n of Inl e \<Rightarrow> Inl e | Inr out \<Rightarrow>
      (case vget x 0 of Inl e \<Rightarrow> Inl e | Inr x0 \<Rightarrow>
      (case vset out 0 x0 of Inl e \<Rightarrow> Inl e | Inr out' \<Rightarrow>
         cummaxC_loop x n 1 out')))"

function cumminC_loop :: "double list \<Rightarrow> int \<Rightarrow> int \<Rightarrow> double list \<Rightarrow> error + double list" where
  "cumminC_loop x n i out =
     (if i < n then
        (case vget out (i - 1) of Inl e \<Rightarrow> Inl e | Inr p \<Rightarrow>
        (case vget x i of Inl e \<Rightarrow> Inl e | Inr xi \<Rightarrow>
        (case vset out i (std_min p xi) of Inl e \<Rightarrow> Inl e | Inr out' \<Rightarrow>
           cumminC_loop x n (i + 1) out')))
      else Inr out)"
  by pat_completeness auto
termination
  by (relation "measure (\<lambda>(x, n, i, out). nat (n - i))") auto

definition cumminC :: "double list \<Rightarrow> error + double list" where
  "cumminC x =
     (let n = vsize x in
      case alloc n of Inl e \<Rightarrow> Inl e | Inr out \<Rightarrow>
      (case vget x 0 of Inl e \<Rightarrow> Inl e | Inr x0 \<Rightarrow>
      (case vset out 0 x0 of Inl e \<Rightarrow> Inl e | Inr out' \<Rightarrow>
         cumminC_loop x n 1 out')))"

function cumprodC_loop :: "double list \<Rightarrow> int \<Rightarrow> int \<Rightarrow> double list \<Rightarrow> error + double list" where
  "cumprodC_loop x n i out =
     (if i < n then
        (case vget out (i - 1) of Inl e \<Rightarrow> Inl e | Inr p \<Rightarrow>
        (case vget x i of Inl e \<Rightarrow> Inl e | Inr xi \<Rightarrow>
        (case vset out i (dmul p xi) of Inl e \<Rightarrow> Inl e | Inr out' \<Rightarrow>
           cumprodC_loop x n (i + 1) out')))
      else Inr out)"
  by pat_completeness auto
termination
  by (relation "measure (\<lambda>(x, n, i, out). nat (n - i))") auto

definition cumprodC :: "double list \<Rightarrow> error + double list" where
  "cumprodC x =
     (let n = vsize x in
      case alloc n of Inl e \<Rightarrow> Inl e | Inr out \<Rightarrow>
      (case vget x 0 of Inl e \<Rightarrow> Inl e | Inr x0 \<Rightarrow>
      (case vset out 0 x0 of Inl e \<Rightarrow> Inl e | Inr out' \<Rightarrow>
         cumprodC_loop x n 1 out')))"

section \<open>Cumulative sum with \<^verbatim>\<open>na_rm\<close>\<close>

text \<open>
  The test \<^verbatim>\<open>na_rm == true && NumericVector::is_na(x[i])\<close> reads \<^verbatim>\<open>x[i]\<close> only when
  \<^verbatim>\<open>na_rm\<close> holds. \<^verbatim>\<open>warning(...)\<close> appends to the warnings of the call.
\<close>

definition na_test :: "bool \<Rightarrow> double list \<Rightarrow> int \<Rightarrow> error + bool" where
  "na_test na_rm x i =
     (if na_rm = True then (case vget x i of Inl e \<Rightarrow> Inl e | Inr xi \<Rightarrow> Inr (is_na xi))
      else Inr False)"

function cumsumC_loop ::
  "double list \<Rightarrow> bool \<Rightarrow> int \<Rightarrow> int \<Rightarrow> double list \<Rightarrow> string list \<Rightarrow> error + result" where
  "cumsumC_loop x na_rm n i out w =
     (if i < n then
        (case na_test na_rm x i of
           Inl e \<Rightarrow> Inl e
         | Inr c \<Rightarrow>
             if c then
               (case vset out i NA_REAL of Inl e \<Rightarrow> Inl e | Inr out' \<Rightarrow>
                  cumsumC_loop x na_rm n (i + 1) out' (w @ [missing_warning]))
             else
               (case vget out (i - 1) of Inl e \<Rightarrow> Inl e | Inr p \<Rightarrow>
               (case vget x i of Inl e \<Rightarrow> Inl e | Inr xi \<Rightarrow>
               (case vset out i (dadd p xi) of Inl e \<Rightarrow> Inl e | Inr out' \<Rightarrow>
                  cumsumC_loop x na_rm n (i + 1) out' w))))
      else Inr \<lparr>vec = out, warnings = w\<rparr>)"
  by pat_completeness auto
termination
  by (relation "measure (\<lambda>(x, na_rm, n, i, out, w). nat (n - i))") auto

definition cumsumC :: "double list \<Rightarrow> bool \<Rightarrow> error + result" where
  "cumsumC x na_rm =
     (let n = vsize x in
      case alloc n of Inl e \<Rightarrow> Inl e | Inr out \<Rightarrow>
      (case vget x 0 of Inl e \<Rightarrow> Inl e | Inr x0 \<Rightarrow>
      (case vset out 0 x0 of Inl e \<Rightarrow> Inl e | Inr out' \<Rightarrow>
         cumsumC_loop x na_rm n 1 out' [])))"

section \<open>Lagged differences\<close>

text \<open>The three \<^verbatim>\<open>diffC\<close> of the sources, named after their files.\<close>

function diffC_lagOne_loop :: "double list \<Rightarrow> int \<Rightarrow> int \<Rightarrow> double list \<Rightarrow> error + double list" where
  "diffC_lagOne_loop x n i out =
     (if i < n then
        (case vget x i of Inl e \<Rightarrow> Inl e | Inr xi \<Rightarrow>
        (case vget x (i - 1) of Inl e \<Rightarrow> Inl e | Inr xp \<Rightarrow>
        (case vset out (i - 1) (dsub xi xp) of Inl e \<Rightarrow> Inl e | Inr out' \<Rightarrow>
           diffC_lagOne_loop x n (i + 1) out')))
      else Inr out)"
  by pat_completeness auto
termination
  by (relation "measure (\<lambda>(x, n, i, out). nat (n - i))") auto

definition diffC_lagOne :: "double list \<Rightarrow> error + double list" where
  "diffC_lagOne x =
     (let n = vsize x in
      case alloc (n - 1) of Inl e \<Rightarrow> Inl e | Inr out \<Rightarrow>
        diffC_lagOne_loop x n 1 out)"

function diffC_lagN_loop ::
  "double list \<Rightarrow> int \<Rightarrow> int \<Rightarrow> int \<Rightarrow> double list \<Rightarrow> error + double list" where
  "diffC_lagN_loop x lag n i out =
     (if i < n then
        (case vget x i of Inl e \<Rightarrow> Inl e | Inr xi \<Rightarrow>
        (case vget x (i - lag) of Inl e \<Rightarrow> Inl e | Inr xp \<Rightarrow>
        (case vset out (i - lag) (dsub xi xp) of Inl e \<Rightarrow> Inl e | Inr out' \<Rightarrow>
           diffC_lagN_loop x lag n (i + 1) out')))
      else Inr out)"
  by pat_completeness auto
termination
  by (relation "measure (\<lambda>(x, lag, n, i, out). nat (n - i))") auto

definition diffC_lagN :: "double list \<Rightarrow> int \<Rightarrow> error + double list" where
  "diffC_lagN x lag =
     (let n = vsize x in
      if lag \<ge> n then Inl InvalidArgument
      else
        (case alloc (n - lag) of Inl e \<Rightarrow> Inl e | Inr out \<Rightarrow>
           diffC_lagN_loop x lag n lag out))"

function diffC_na_loop ::
  "double list \<Rightarrow> int \<Rightarrow> bool \<Rightarrow> int \<Rightarrow> int \<Rightarrow> double list \<Rightarrow> string list \<Rightarrow> error + result" where
  "diffC_na_loop x lag na_rm n i out w =
     (if i < n then
        (case na_test na_rm x i of
           Inl e \<Rightarrow> Inl e
         | Inr c \<Rightarrow>
             if c then
               (case vset out (i - lag) NA_REAL of Inl e \<Rightarrow> Inl e | Inr out' \<Rightarrow>
                  diffC_na_loop x lag na_rm n (i + 1) out' (w @ [missing_warning]))
             else
               (case vget x i of Inl e \<Rightarrow> Inl e | Inr xi \<Rightarrow>
               (case vget x (i - lag) of Inl e \<Rightarrow> Inl e | Inr xp \<Rightarrow>
               (case vset out (i - lag) (dsub xi xp) of Inl e \<Rightarrow> Inl e | Inr out' \<Rightarrow>
                  diffC_na_loop x lag na_rm n (i + 1) out' w))))
      else Inr \<lparr>vec = out, warnings = w\<rparr>)"
  by pat_completeness auto
termination
  by (relation "measure (\<lambda>(x, lag, na_rm, n, i, out, w). nat (n - i))") auto

definition diffC_na :: "double list \<Rightarrow> int \<Rightarrow> bool \<Rightarrow> error + result" where
  "diffC_na x lag na_rm =
     (let n = vsize x in
      if lag \<ge> n then Inl InvalidArgument
      else
        (case alloc (n - lag) of Inl e \<Rightarrow> Inl e | Inr out \<Rightarrow>
           diffC_na_loop x lag na_rm n lag out []))"

section \<open>Range\<close>

text \<open>
  Both kernels initialise \<^verbatim>\<open>omin\<close> and \<^verbatim>\<open>omax\<close> from \<^verbatim>\<open>x[0]\<close> in their first
  statement; the test \<^verbatim>\<open>n == 0\<close> comes after it.
\<close>

function rangeC_loop :: "double list \<Rightarrow> int \<Rightarrow> int \<Rightarrow> double \<Rightarrow> double \<Rightarrow> error + double \<times> double" where
  "rangeC_loop x n i omin omax =
     (if i < n then
        (case vget x i of Inl e \<Rightarrow> Inl e | Inr xi \<Rightarrow>
           rangeC_loop x n (i + 1) (std_min xi omin) (std_max xi omax))
      else Inr (omin, omax))"
  by pat_completeness auto
termination
  by (relation "measure (\<lambda>(x, n, i, omin, omax). nat (n - i))") auto

definition pair_out :: "double \<Rightarrow> double \<Rightarrow> error + double list" where
  "pair_out omin omax =
     (case alloc 2 of Inl e \<Rightarrow> Inl e | Inr out \<Rightarrow>
     (case vset out 0 omin of Inl e \<Rightarrow> Inl e | Inr out1 \<Rightarrow>
        vset out1 1 omax))"

definition rangeC :: "double list \<Rightarrow> error + double list" where
  "rangeC x =
     (case vget x 0 of Inl e \<Rightarrow> Inl e | Inr x0 \<Rightarrow>
        (let omin = x0; omax = x0; n = vsize x in
         if n = 0 then Inl EmptyInput
         else
           (case rangeC_loop x n 1 omin omax of Inl e \<Rightarrow> Inl e
            | Inr (omin', omax') \<Rightarrow> pair_out omin' omax')))"

text \<open>
  In \<^verbatim>\<open>na_rangeC\<close> the loop starts at 0 and returns from inside: \<open>Inr (Inl v)\<close> is that
  early return of \<open>v\<close>, \<open>Inr (Inr (omin, omax))\<close> the normal end of the loop. The kernel never calls
  \<^verbatim>\<open>warning\<close>. Assigning the scalar \<^verbatim>\<open>NA_REAL\<close> to \<^verbatim>\<open>out_na\<close> makes it the
  one-element vector holding \<^verbatim>\<open>NA_REAL\<close>.
\<close>

function na_rangeC_loop ::
  "double list \<Rightarrow> bool \<Rightarrow> int \<Rightarrow> int \<Rightarrow> double \<Rightarrow> double \<Rightarrow> error + (double list + double \<times> double)" where
  "na_rangeC_loop x na_rm n i omin omax =
     (if i < n then
        (case na_test na_rm x i of
           Inl e \<Rightarrow> Inl e
         | Inr c \<Rightarrow>
             if c then
               (case alloc 1 of Inl e \<Rightarrow> Inl e | Inr out_na \<Rightarrow> Inr (Inl [NA_REAL]))
             else
               (case vget x i of Inl e \<Rightarrow> Inl e | Inr xi \<Rightarrow>
                  na_rangeC_loop x na_rm n (i + 1) (std_min xi omin) (std_max xi omax)))
      else Inr (Inr (omin, omax)))"
  by pat_completeness auto
termination
  by (relation "measure (\<lambda>(x, na_rm, n, i, omin, omax). nat (n - i))") auto

definition na_rangeC :: "double list \<Rightarrow> bool \<Rightarrow> error + result" where
  "na_rangeC x na_rm =
     (case vget x 0 of Inl e \<Rightarrow> Inl e | Inr x0 \<Rightarrow>
        (let omin = x0; omax = x0; n = vsize x in
         if n = 0 then Inl EmptyInput
         else
           (case na_rangeC_loop x na_rm n 0 omin omax of Inl e \<Rightarrow> Inl e
            | Inr (Inl out_na) \<Rightarrow> Inr \<lparr>vec = out_na, warnings = []\<rparr>
            | Inr (Inr (omin', omax')) \<Rightarrow>
                (case pair_out omin' omax' of Inl e \<Rightarrow> Inl e
                 | Inr out \<Rightarrow> Inr \<lparr>vec = out, warnings = []\<rparr>))))"

section \<open>Variance\<close>

text \<open>
  \<^verbatim>\<open>varC\<close> returns a number computed by the machine's rounded binary64 operations. They
  are a parameter of the model, over any type \<open>'d\<close> of doubles: \<open>fp_int\<close> converts an
  \<^verbatim>\<open>int\<close> to double (the literals \<^verbatim>\<open>0\<close> and \<^verbatim>\<open>2\<close>, \<^verbatim>\<open>n\<close> and \<^verbatim>\<open>n - 1\<close>), \<open>fp_add\<close>,
  \<open>fp_sub\<close> and \<open>fp_div\<close> are \<^verbatim>\<open>+\<close>, \<^verbatim>\<open>-\<close> and \<^verbatim>\<open>/\<close> on doubles, \<open>fp_pow\<close> is \<^verbatim>\<open>pow\<close>, and
  \<open>fp_na\<close> is \<^verbatim>\<open>NA_REAL\<close>. Nothing is assumed about them: rounding, overflow to infinity
  and not-a-number results are whatever the arithmetic does.
\<close>

record 'd arith =
  fp_na :: "'d"
  fp_int :: "int \<Rightarrow> 'd"
  fp_add :: "'d \<Rightarrow> 'd \<Rightarrow> 'd"
  fp_sub :: "'d \<Rightarrow> 'd \<Rightarrow> 'd"
  fp_div :: "'d \<Rightarrow> 'd \<Rightarrow> 'd"
  fp_pow :: "'d \<Rightarrow> 'd \<Rightarrow> 'd"

text \<open>\<^verbatim>\<open>for (int i = 0; i < n; ++i) mx += x[i] / n;\<close>\<close>

function varC_mean_loop :: "'d arith \<Rightarrow> 'd list \<Rightarrow> int \<Rightarrow> int \<Rightarrow> 'd \<Rightarrow> error + 'd" where
  "varC_mean_loop A x n i mx =
     (if i < n then
        (case vget x i of Inl e \<Rightarrow> Inl e | Inr xi \<Rightarrow>
           varC_mean_loop A x n (i + 1) (fp_add A mx (fp_div A xi (fp_int A n))))
      else Inr mx)"
  by pat_completeness auto
termination
  by (relation "measure (\<lambda>(A, x, n, i, mx). nat (n - i))") auto

text \<open>\<^verbatim>\<open>for (int i = 0; i < n; ++i) out += pow(x[i] - mx, 2);\<close>\<close>

function varC_dev_loop :: "'d arith \<Rightarrow> 'd list \<Rightarrow> int \<Rightarrow> int \<Rightarrow> 'd \<Rightarrow> 'd \<Rightarrow> error + 'd" where
  "varC_dev_loop A x n i mx out =
     (if i < n then
        (case vget x i of Inl e \<Rightarrow> Inl e | Inr xi \<Rightarrow>
           varC_dev_loop A x n (i + 1) mx
             (fp_add A out (fp_pow A (fp_sub A xi mx) (fp_int A 2))))
      else Inr out)"
  by pat_completeness auto
termination
  by (relation "measure (\<lambda>(A, x, n, i, mx, out). nat (n - i))") auto

definition varC :: "'d arith \<Rightarrow> 'd list \<Rightarrow> error + 'd" where
  "varC A x =
     (let n = vsize x in
      if n < 2 then Inr (fp_na A)
      else
        (case varC_mean_loop A x n 0 (fp_int A 0) of Inl e \<Rightarrow> Inl e | Inr mx \<Rightarrow>
        (case varC_dev_loop A x n 0 mx (fp_int A 0) of Inl e \<Rightarrow> Inl e | Inr out \<Rightarrow>
           Inr (fp_div A out (fp_int A (n - 1))))))"

section \<open>Notions of the specification\<close>

text \<open>
  The number of warnings a scan of \<open>x\<close> from position \<open>k\<close> signals: one per missing
  element when \<open>na_rm\<close> holds, none otherwise.
\<close>

definition na_count :: "bool \<Rightarrow> double list \<Rightarrow> nat \<Rightarrow> nat" where
  "na_count na_rm x k = (if na_rm then length (filter is_na (drop k x)) else 0)"

text \<open>
  The statistic in the words of the specification, in the arithmetic \<open>A\<close>: the mean
  accumulated as the sum of \<open>x[i] / n\<close>, element by element from 0, and the sum of the
  squared deviations from it, from 0, divided by \<open>n - 1\<close>.
\<close>

definition accumulated_mean :: "'d arith \<Rightarrow> 'd list \<Rightarrow> 'd" where
  "accumulated_mean A x =
     foldl (\<lambda>mx v. fp_add A mx (fp_div A v (fp_int A (int (length x))))) (fp_int A 0) x"

definition sample_variance :: "'d arith \<Rightarrow> 'd list \<Rightarrow> 'd" where
  "sample_variance A x =
     fp_div A
       (foldl (\<lambda>s v. fp_add A s (fp_pow A (fp_sub A v (accumulated_mean A x)) (fp_int A 2)))
          (fp_int A 0) x)
       (fp_int A (int (length x) - 1))"

text \<open>
  An arithmetic that records the operations instead of computing them: the result of a
  kernel in it is the expression the kernel evaluates, over the elements \<open>x[k]\<close>.
\<close>

datatype calc =
  CElem nat | CNa | CInt int | CAdd calc calc | CSub calc calc | CDiv calc calc | CPow calc calc

definition recording :: "calc arith" where
  "recording = \<lparr>fp_na = CNa, fp_int = CInt, fp_add = CAdd, fp_sub = CSub, fp_div = CDiv,
     fp_pow = CPow\<rparr>"

section \<open>Basic facts\<close>

text \<open>The loop equations are unfolded by hand, one iteration at a time.\<close>

declare cummaxC_loop.simps [simp del]
  cumminC_loop.simps [simp del]
  cumprodC_loop.simps [simp del]
  cumsumC_loop.simps [simp del]
  diffC_lagOne_loop.simps [simp del]
  diffC_lagN_loop.simps [simp del]
  diffC_na_loop.simps [simp del]
  rangeC_loop.simps [simp del]
  na_rangeC_loop.simps [simp del]
  varC_mean_loop.simps [simp del]
  varC_dev_loop.simps [simp del]

lemma vget_in: "0 \<le> i \<Longrightarrow> i < int (length x) \<Longrightarrow> vget x i = Inr (x ! nat i)"
  by (simp add: vget_def vsize_def)

lemma vset_in: "0 \<le> i \<Longrightarrow> i < int (length out) \<Longrightarrow> vset out i v = Inr (out[nat i := v])"
  by (simp add: vset_def vsize_def)

lemma alloc_ok: "0 \<le> m \<Longrightarrow> alloc m = Inr (replicate (nat m) (Num 0))"
  by (simp add: alloc_def)

section \<open>The cumulative kernels satisfy their recurrence\<close>

lemma cummaxC_loop_inv:
  "n = int (length x) \<Longrightarrow> length out = length x \<Longrightarrow> 1 \<le> i \<Longrightarrow> i \<le> n \<Longrightarrow>
   \<exists>out'. cummaxC_loop x n i out = Inr out' \<and> length out' = length x \<and>
     (\<forall>j. j < nat i \<longrightarrow> out' ! j = out ! j) \<and>
     (\<forall>j. nat i \<le> j \<and> j < length x \<longrightarrow> out' ! j = std_max (out' ! (j - 1)) (x ! j))"
proof (induction x n i out rule: cummaxC_loop.induct)
  case (1 x n i out)
  show ?case
  proof (cases "i < n")
    case False
    with 1 show ?thesis
      by (subst cummaxC_loop.simps) auto
  next
    case True
    define v where "v = std_max (out ! nat (i - 1)) (x ! nat i)"
    have g1: "vget out (i - 1) = Inr (out ! nat (i - 1))"
      using 1 True by (simp add: vget_in)
    have g2: "vget x i = Inr (x ! nat i)"
      using 1 True by (simp add: vget_in)
    have s: "vset out i v = Inr (out[nat i := v])"
      using 1 True by (simp add: vset_in)
    have step: "cummaxC_loop x n i out = cummaxC_loop x n (i + 1) (out[nat i := v])"
      using True g1 g2 s by (subst cummaxC_loop.simps) (simp add: v_def)
    from "1.IH"[OF True g1 g2 s[unfolded v_def]] "1.prems" True
    obtain out' where
      r: "cummaxC_loop x n (i + 1) (out[nat i := v]) = Inr out'" and
      l: "length out' = length x" and
      k: "\<forall>j. j < nat (i + 1) \<longrightarrow> out' ! j = out[nat i := v] ! j" and
      f: "\<forall>j. nat (i + 1) \<le> j \<and> j < length x \<longrightarrow> out' ! j = std_max (out' ! (j - 1)) (x ! j)"
      by (auto simp: v_def)
    have ni: "nat (i + 1) = Suc (nat i)" "nat (i - 1) = nat i - 1" "0 < nat i" "nat i < length x"
      using "1.prems" True by auto
    have keep: "\<forall>j. j < nat i \<longrightarrow> out' ! j = out ! j"
      using k ni by auto
    have here: "out' ! nat i = v"
      using k ni "1.prems" by auto
    have prev: "out' ! (nat i - 1) = out ! (nat i - 1)"
      using keep ni by auto
    have "\<forall>j. nat i \<le> j \<and> j < length x \<longrightarrow> out' ! j = std_max (out' ! (j - 1)) (x ! j)"
    proof (intro allI impI)
      fix j assume j: "nat i \<le> j \<and> j < length x"
      show "out' ! j = std_max (out' ! (j - 1)) (x ! j)"
      proof (cases "j = nat i")
        case True
        then show ?thesis using here prev ni by (simp add: v_def)
      next
        case False
        then show ?thesis using j f ni by auto
      qed
    qed
    with step r l keep show ?thesis by simp
  qed
qed

lemma cummaxC_rec:
  assumes "x \<noteq> []"
  shows "\<exists>out. cummaxC x = Inr out \<and> length out = length x \<and> out ! 0 = x ! 0 \<and>
     (\<forall>j. 1 \<le> j \<and> j < length x \<longrightarrow> out ! j = std_max (out ! (j - 1)) (x ! j))"
proof -
  define out0 where "out0 = (replicate (length x) (Num 0))[0 := x ! 0]"
  have pos: "0 < length x" using assms by simp
  have start: "cummaxC x = cummaxC_loop x (int (length x)) 1 out0"
    using pos by (simp add: cummaxC_def vsize_def alloc_ok vget_in vset_in out0_def)
  have "length out0 = length x" by (simp add: out0_def)
  from cummaxC_loop_inv[OF refl this, of 1] pos
  obtain out' where
    r: "cummaxC_loop x (int (length x)) 1 out0 = Inr out'" and
    l: "length out' = length x" and
    k: "\<forall>j. j < nat 1 \<longrightarrow> out' ! j = out0 ! j" and
    f: "\<forall>j. nat 1 \<le> j \<and> j < length x \<longrightarrow> out' ! j = std_max (out' ! (j - 1)) (x ! j)"
    by auto
  have "out' ! 0 = x ! 0" using k pos by (simp add: out0_def)
  with start r l f show ?thesis by simp
qed

lemma cumminC_loop_inv:
  "n = int (length x) \<Longrightarrow> length out = length x \<Longrightarrow> 1 \<le> i \<Longrightarrow> i \<le> n \<Longrightarrow>
   \<exists>out'. cumminC_loop x n i out = Inr out' \<and> length out' = length x \<and>
     (\<forall>j. j < nat i \<longrightarrow> out' ! j = out ! j) \<and>
     (\<forall>j. nat i \<le> j \<and> j < length x \<longrightarrow> out' ! j = std_min (out' ! (j - 1)) (x ! j))"
proof (induction x n i out rule: cumminC_loop.induct)
  case (1 x n i out)
  show ?case
  proof (cases "i < n")
    case False
    with 1 show ?thesis
      by (subst cumminC_loop.simps) auto
  next
    case True
    define v where "v = std_min (out ! nat (i - 1)) (x ! nat i)"
    have g1: "vget out (i - 1) = Inr (out ! nat (i - 1))"
      using 1 True by (simp add: vget_in)
    have g2: "vget x i = Inr (x ! nat i)"
      using 1 True by (simp add: vget_in)
    have s: "vset out i v = Inr (out[nat i := v])"
      using 1 True by (simp add: vset_in)
    have step: "cumminC_loop x n i out = cumminC_loop x n (i + 1) (out[nat i := v])"
      using True g1 g2 s by (subst cumminC_loop.simps) (simp add: v_def)
    from "1.IH"[OF True g1 g2 s[unfolded v_def]] "1.prems" True
    obtain out' where
      r: "cumminC_loop x n (i + 1) (out[nat i := v]) = Inr out'" and
      l: "length out' = length x" and
      k: "\<forall>j. j < nat (i + 1) \<longrightarrow> out' ! j = out[nat i := v] ! j" and
      f: "\<forall>j. nat (i + 1) \<le> j \<and> j < length x \<longrightarrow> out' ! j = std_min (out' ! (j - 1)) (x ! j)"
      by (auto simp: v_def)
    have ni: "nat (i + 1) = Suc (nat i)" "nat (i - 1) = nat i - 1" "0 < nat i" "nat i < length x"
      using "1.prems" True by auto
    have keep: "\<forall>j. j < nat i \<longrightarrow> out' ! j = out ! j"
      using k ni by auto
    have here: "out' ! nat i = v"
      using k ni "1.prems" by auto
    have prev: "out' ! (nat i - 1) = out ! (nat i - 1)"
      using keep ni by auto
    have "\<forall>j. nat i \<le> j \<and> j < length x \<longrightarrow> out' ! j = std_min (out' ! (j - 1)) (x ! j)"
    proof (intro allI impI)
      fix j assume j: "nat i \<le> j \<and> j < length x"
      show "out' ! j = std_min (out' ! (j - 1)) (x ! j)"
      proof (cases "j = nat i")
        case True
        then show ?thesis using here prev ni by (simp add: v_def)
      next
        case False
        then show ?thesis using j f ni by auto
      qed
    qed
    with step r l keep show ?thesis by simp
  qed
qed

lemma cumminC_rec:
  assumes "x \<noteq> []"
  shows "\<exists>out. cumminC x = Inr out \<and> length out = length x \<and> out ! 0 = x ! 0 \<and>
     (\<forall>j. 1 \<le> j \<and> j < length x \<longrightarrow> out ! j = std_min (out ! (j - 1)) (x ! j))"
proof -
  define out0 where "out0 = (replicate (length x) (Num 0))[0 := x ! 0]"
  have pos: "0 < length x" using assms by simp
  have start: "cumminC x = cumminC_loop x (int (length x)) 1 out0"
    using pos by (simp add: cumminC_def vsize_def alloc_ok vget_in vset_in out0_def)
  have "length out0 = length x" by (simp add: out0_def)
  from cumminC_loop_inv[OF refl this, of 1] pos
  obtain out' where
    r: "cumminC_loop x (int (length x)) 1 out0 = Inr out'" and
    l: "length out' = length x" and
    k: "\<forall>j. j < nat 1 \<longrightarrow> out' ! j = out0 ! j" and
    f: "\<forall>j. nat 1 \<le> j \<and> j < length x \<longrightarrow> out' ! j = std_min (out' ! (j - 1)) (x ! j)"
    by auto
  have "out' ! 0 = x ! 0" using k pos by (simp add: out0_def)
  with start r l f show ?thesis by simp
qed

lemma cumprodC_loop_inv:
  "n = int (length x) \<Longrightarrow> length out = length x \<Longrightarrow> 1 \<le> i \<Longrightarrow> i \<le> n \<Longrightarrow>
   \<exists>out'. cumprodC_loop x n i out = Inr out' \<and> length out' = length x \<and>
     (\<forall>j. j < nat i \<longrightarrow> out' ! j = out ! j) \<and>
     (\<forall>j. nat i \<le> j \<and> j < length x \<longrightarrow> out' ! j = dmul (out' ! (j - 1)) (x ! j))"
proof (induction x n i out rule: cumprodC_loop.induct)
  case (1 x n i out)
  show ?case
  proof (cases "i < n")
    case False
    with 1 show ?thesis
      by (subst cumprodC_loop.simps) auto
  next
    case True
    define v where "v = dmul (out ! nat (i - 1)) (x ! nat i)"
    have g1: "vget out (i - 1) = Inr (out ! nat (i - 1))"
      using 1 True by (simp add: vget_in)
    have g2: "vget x i = Inr (x ! nat i)"
      using 1 True by (simp add: vget_in)
    have s: "vset out i v = Inr (out[nat i := v])"
      using 1 True by (simp add: vset_in)
    have step: "cumprodC_loop x n i out = cumprodC_loop x n (i + 1) (out[nat i := v])"
      using True g1 g2 s by (subst cumprodC_loop.simps) (simp add: v_def)
    from "1.IH"[OF True g1 g2 s[unfolded v_def]] "1.prems" True
    obtain out' where
      r: "cumprodC_loop x n (i + 1) (out[nat i := v]) = Inr out'" and
      l: "length out' = length x" and
      k: "\<forall>j. j < nat (i + 1) \<longrightarrow> out' ! j = out[nat i := v] ! j" and
      f: "\<forall>j. nat (i + 1) \<le> j \<and> j < length x \<longrightarrow> out' ! j = dmul (out' ! (j - 1)) (x ! j)"
      by (auto simp: v_def)
    have ni: "nat (i + 1) = Suc (nat i)" "nat (i - 1) = nat i - 1" "0 < nat i" "nat i < length x"
      using "1.prems" True by auto
    have keep: "\<forall>j. j < nat i \<longrightarrow> out' ! j = out ! j"
      using k ni by auto
    have here: "out' ! nat i = v"
      using k ni "1.prems" by auto
    have prev: "out' ! (nat i - 1) = out ! (nat i - 1)"
      using keep ni by auto
    have "\<forall>j. nat i \<le> j \<and> j < length x \<longrightarrow> out' ! j = dmul (out' ! (j - 1)) (x ! j)"
    proof (intro allI impI)
      fix j assume j: "nat i \<le> j \<and> j < length x"
      show "out' ! j = dmul (out' ! (j - 1)) (x ! j)"
      proof (cases "j = nat i")
        case True
        then show ?thesis using here prev ni by (simp add: v_def)
      next
        case False
        then show ?thesis using j f ni by auto
      qed
    qed
    with step r l keep show ?thesis by simp
  qed
qed

lemma cumprodC_rec:
  assumes "x \<noteq> []"
  shows "\<exists>out. cumprodC x = Inr out \<and> length out = length x \<and> out ! 0 = x ! 0 \<and>
     (\<forall>j. 1 \<le> j \<and> j < length x \<longrightarrow> out ! j = dmul (out ! (j - 1)) (x ! j))"
proof -
  define out0 where "out0 = (replicate (length x) (Num 0))[0 := x ! 0]"
  have pos: "0 < length x" using assms by simp
  have start: "cumprodC x = cumprodC_loop x (int (length x)) 1 out0"
    using pos by (simp add: cumprodC_def vsize_def alloc_ok vget_in vset_in out0_def)
  have "length out0 = length x" by (simp add: out0_def)
  from cumprodC_loop_inv[OF refl this, of 1] pos
  obtain out' where
    r: "cumprodC_loop x (int (length x)) 1 out0 = Inr out'" and
    l: "length out' = length x" and
    k: "\<forall>j. j < nat 1 \<longrightarrow> out' ! j = out0 ! j" and
    f: "\<forall>j. nat 1 \<le> j \<and> j < length x \<longrightarrow> out' ! j = dmul (out' ! (j - 1)) (x ! j)"
    by auto
  have "out' ! 0 = x ! 0" using k pos by (simp add: out0_def)
  with start r l f show ?thesis by simp
qed

lemma std_max_num: "\<not> is_na a \<Longrightarrow> \<not> is_na b \<Longrightarrow> \<not> is_na (std_max a b) \<and> dle a (std_max a b)"
  by (cases a; cases b) (auto simp: std_max_def)

lemma std_min_num: "\<not> is_na a \<Longrightarrow> \<not> is_na b \<Longrightarrow> \<not> is_na (std_min a b) \<and> dle (std_min a b) a"
  by (cases a; cases b) (auto simp: std_min_def)

lemma rec_no_na:
  assumes "out ! 0 = x ! 0" and "length out = length x"
    and "\<forall>j. 1 \<le> j \<and> j < length x \<longrightarrow> out ! j = f (out ! (j - 1)) (x ! j)"
    and "\<And>a b. \<not> is_na a \<Longrightarrow> \<not> is_na b \<Longrightarrow> \<not> is_na (f a b)"
    and "\<forall>v\<in>set x. \<not> is_na v"
  shows "j < length x \<Longrightarrow> \<not> is_na (out ! j)"
proof (induction j)
  case 0
  then show ?case using assms(1,5) by (simp add: nth_mem)
next
  case (Suc j)
  then have "out ! Suc j = f (out ! j) (x ! Suc j)" using assms(3) by simp
  moreover have "\<not> is_na (out ! j)" using Suc by simp
  moreover have "\<not> is_na (x ! Suc j)" using Suc.prems assms(5) by (simp add: nth_mem)
  ultimately show ?case using assms(4) by simp
qed

text \<open>
  C4. For every non-empty vector the outputs of \<open>cummaxC\<close>, \<open>cumminC\<close> and \<open>cumprodC\<close>
  have the length of the input, start with \<open>x[0]\<close> and satisfy
  \<open>out[i] = op (out[i - 1], x[i])\<close> for every \<open>i \<ge> 1\<close>, with \<open>op\<close> the maximum, the
  minimum and the product.
\<close>

theorem cumulative_recurrence:
  assumes "x \<noteq> []"
  shows "(\<exists>out. cummaxC x = Inr out \<and> length out = length x \<and> out ! 0 = x ! 0 \<and>
            (\<forall>i. 1 \<le> i \<and> i < length x \<longrightarrow> out ! i = std_max (out ! (i - 1)) (x ! i))) \<and>
         (\<exists>out. cumminC x = Inr out \<and> length out = length x \<and> out ! 0 = x ! 0 \<and>
            (\<forall>i. 1 \<le> i \<and> i < length x \<longrightarrow> out ! i = std_min (out ! (i - 1)) (x ! i))) \<and>
         (\<exists>out. cumprodC x = Inr out \<and> length out = length x \<and> out ! 0 = x ! 0 \<and>
            (\<forall>i. 1 \<le> i \<and> i < length x \<longrightarrow> out ! i = dmul (out ! (i - 1)) (x ! i)))"
  using cummaxC_rec[OF assms] cumminC_rec[OF assms] cumprodC_rec[OF assms] by blast

theorem cumulative_recurrence_witness:
  "[Num 2, NA_REAL, Num 5, Num 3] \<noteq> [] \<and>
   (\<exists>out. cummaxC [Num 2, NA_REAL, Num 5, Num 3] = Inr out \<and> length out = length [Num 2, NA_REAL, Num 5, Num 3] \<and> out ! 0 = [Num 2, NA_REAL, Num 5, Num 3] ! 0 \<and>
      (\<forall>i. 1 \<le> i \<and> i < length [Num 2, NA_REAL, Num 5, Num 3] \<longrightarrow>
         out ! i = std_max (out ! (i - 1)) ([Num 2, NA_REAL, Num 5, Num 3] ! i))) \<and>
   (\<exists>out. cumminC [Num 2, NA_REAL, Num 5, Num 3] = Inr out \<and> length out = length [Num 2, NA_REAL, Num 5, Num 3] \<and> out ! 0 = [Num 2, NA_REAL, Num 5, Num 3] ! 0 \<and>
      (\<forall>i. 1 \<le> i \<and> i < length [Num 2, NA_REAL, Num 5, Num 3] \<longrightarrow>
         out ! i = std_min (out ! (i - 1)) ([Num 2, NA_REAL, Num 5, Num 3] ! i))) \<and>
   (\<exists>out. cumprodC [Num 2, NA_REAL, Num 5, Num 3] = Inr out \<and> length out = length [Num 2, NA_REAL, Num 5, Num 3] \<and> out ! 0 = [Num 2, NA_REAL, Num 5, Num 3] ! 0 \<and>
      (\<forall>i. 1 \<le> i \<and> i < length [Num 2, NA_REAL, Num 5, Num 3] \<longrightarrow>
         out ! i = dmul (out ! (i - 1)) ([Num 2, NA_REAL, Num 5, Num 3] ! i)))"
proof -
  have h: "[Num 2, NA_REAL, Num 5, Num 3] \<noteq> []" by simp
  from cumulative_recurrence[OF h] h show ?thesis by blast
qed

text \<open>
  C10. On a non-empty vector without missing values the output of \<open>cummaxC\<close> never
  decreases and the output of \<open>cumminC\<close> never increases from one position to the next.
\<close>

theorem cummax_cummin_monotone:
  assumes "x \<noteq> []" and "\<forall>v\<in>set x. \<not> is_na v"
  shows "(\<exists>out. cummaxC x = Inr out \<and> length out = length x \<and>
            (\<forall>i. 1 \<le> i \<and> i < length x \<longrightarrow> dle (out ! (i - 1)) (out ! i))) \<and>
         (\<exists>out. cumminC x = Inr out \<and> length out = length x \<and>
            (\<forall>i. 1 \<le> i \<and> i < length x \<longrightarrow> dle (out ! i) (out ! (i - 1))))"
proof
  from cummaxC_rec[OF assms(1)] obtain out where
    r: "cummaxC x = Inr out" and l: "length out = length x" and z: "out ! 0 = x ! 0" and
    f: "\<forall>j. 1 \<le> j \<and> j < length x \<longrightarrow> out ! j = std_max (out ! (j - 1)) (x ! j)"
    by blast
  have nn: "\<not> is_na (out ! j)" if "j < length x" for j
    using rec_no_na[OF z l f _ assms(2) that] std_max_num by blast
  have "dle (out ! (i - 1)) (out ! i)" if "1 \<le> i \<and> i < length x" for i
  proof -
    have "out ! i = std_max (out ! (i - 1)) (x ! i)" using f that by blast
    moreover have "i - 1 < length x" using that by arith
    then have "\<not> is_na (out ! (i - 1))" by (rule nn)
    moreover have "\<not> is_na (x ! i)" using assms(2) that by (simp add: nth_mem)
    ultimately show ?thesis using std_max_num by simp
  qed
  with r l show "\<exists>out. cummaxC x = Inr out \<and> length out = length x \<and>
            (\<forall>i. 1 \<le> i \<and> i < length x \<longrightarrow> dle (out ! (i - 1)) (out ! i))" by blast
next
  from cumminC_rec[OF assms(1)] obtain out where
    r: "cumminC x = Inr out" and l: "length out = length x" and z: "out ! 0 = x ! 0" and
    f: "\<forall>j. 1 \<le> j \<and> j < length x \<longrightarrow> out ! j = std_min (out ! (j - 1)) (x ! j)"
    by blast
  have nn: "\<not> is_na (out ! j)" if "j < length x" for j
    using rec_no_na[OF z l f _ assms(2) that] std_min_num by blast
  have "dle (out ! i) (out ! (i - 1))" if "1 \<le> i \<and> i < length x" for i
  proof -
    have "out ! i = std_min (out ! (i - 1)) (x ! i)" using f that by blast
    moreover have "i - 1 < length x" using that by arith
    then have "\<not> is_na (out ! (i - 1))" by (rule nn)
    moreover have "\<not> is_na (x ! i)" using assms(2) that by (simp add: nth_mem)
    ultimately show ?thesis using std_min_num by simp
  qed
  with r l show "\<exists>out. cumminC x = Inr out \<and> length out = length x \<and>
            (\<forall>i. 1 \<le> i \<and> i < length x \<longrightarrow> dle (out ! i) (out ! (i - 1)))" by blast
qed

theorem cummax_cummin_monotone_witness:
  "[Num 2, Num 1, Num 5, Num 3] \<noteq> [] \<and> \<not> list_ex is_na [Num 2, Num 1, Num 5, Num 3] \<and>
   (\<exists>out. cummaxC [Num 2, Num 1, Num 5, Num 3] = Inr out \<and> length out = length [Num 2, Num 1, Num 5, Num 3] \<and>
      (\<forall>i. 1 \<le> i \<and> i < length [Num 2, Num 1, Num 5, Num 3] \<longrightarrow> dle (out ! (i - 1)) (out ! i))) \<and>
   (\<exists>out. cumminC [Num 2, Num 1, Num 5, Num 3] = Inr out \<and> length out = length [Num 2, Num 1, Num 5, Num 3] \<and>
      (\<forall>i. 1 \<le> i \<and> i < length [Num 2, Num 1, Num 5, Num 3] \<longrightarrow> dle (out ! i) (out ! (i - 1))))"
proof -
  have h: "[Num 2, Num 1, Num 5, Num 3] \<noteq> []" by simp
  have k: "\<forall>v\<in>set [Num 2, Num 1, Num 5, Num 3]. \<not> is_na v" by simp
  have "\<not> list_ex is_na [Num 2, Num 1, Num 5, Num 3]" by simp
  with cummax_cummin_monotone[OF h k] h show ?thesis by blast
qed

section \<open>The loop of the missing-aware cumulative sum\<close>

lemma na_test_in:
  "0 \<le> i \<Longrightarrow> i < int (length x) \<Longrightarrow> na_test na_rm x i = Inr (na_rm \<and> is_na (x ! nat i))"
  by (simp add: na_test_def vget_in)

lemma na_count_step:
  "k < length x \<Longrightarrow>
   na_count na_rm x k = (if na_rm \<and> is_na (x ! k) then 1 else 0) + na_count na_rm x (Suc k)"
  by (simp add: na_count_def Cons_nth_drop_Suc[symmetric])

lemma na_count_end: "length x \<le> k \<Longrightarrow> na_count na_rm x k = 0"
  by (simp add: na_count_def)

lemma na_count_pos:
  "0 < na_count na_rm x k \<longleftrightarrow> na_rm \<and> (\<exists>j. k \<le> j \<and> j < length x \<and> is_na (x ! j))"
proof -
  have "(\<exists>v\<in>set (drop k x). is_na v) \<longleftrightarrow> (\<exists>j. k \<le> j \<and> j < length x \<and> is_na (x ! j))"
  proof
    assume "\<exists>v\<in>set (drop k x). is_na v"
    then obtain m where "m < length (drop k x)" "is_na (drop k x ! m)"
      by (auto simp: in_set_conv_nth)
    then have "k \<le> k + m \<and> k + m < length x \<and> is_na (x ! (k + m))" by auto
    then show "\<exists>j. k \<le> j \<and> j < length x \<and> is_na (x ! j)" by blast
  next
    assume "\<exists>j. k \<le> j \<and> j < length x \<and> is_na (x ! j)"
    then obtain j where j: "k \<le> j" "j < length x" "is_na (x ! j)" by blast
    then have "j - k < length (drop k x)" "drop k x ! (j - k) = x ! j" by auto
    with j show "\<exists>v\<in>set (drop k x). is_na v" by (metis nth_mem)
  qed
  then show ?thesis
    by (auto simp: na_count_def filter_empty_conv)
qed

lemma cumsumC_loop_inv:
  "n = int (length x) \<Longrightarrow> length out = length x \<Longrightarrow> 1 \<le> i \<Longrightarrow> i \<le> n \<Longrightarrow>
   \<exists>out'. cumsumC_loop x na_rm n i out w =
       Inr \<lparr>vec = out', warnings = w @ replicate (na_count na_rm x (nat i)) missing_warning\<rparr> \<and>
     length out' = length x \<and>
     (\<forall>j. j < nat i \<longrightarrow> out' ! j = out ! j) \<and>
     (\<forall>j. nat i \<le> j \<and> j < length x \<longrightarrow>
        out' ! j = (if na_rm \<and> is_na (x ! j) then NA_REAL else dadd (out' ! (j - 1)) (x ! j)))"
proof (induction x na_rm n i out w rule: cumsumC_loop.induct)
  case (1 x na_rm n i out w)
  show ?case
  proof (cases "i < n")
    case False
    with 1 show ?thesis
      by (subst cumsumC_loop.simps) (auto simp: na_count_end)
  next
    case True
    define c where "c = (na_rm \<and> is_na (x ! nat i))"
    define v where "v = (if c then NA_REAL else dadd (out ! nat (i - 1)) (x ! nat i))"
    define w' where "w' = (if c then w @ [missing_warning] else w)"
    have t: "na_test na_rm x i = Inr c"
      using 1 True by (simp add: na_test_in c_def)
    have g1: "vget out (i - 1) = Inr (out ! nat (i - 1))"
      using 1 True by (simp add: vget_in)
    have g2: "vget x i = Inr (x ! nat i)"
      using 1 True by (simp add: vget_in)
    have s: "vset out i u = Inr (out[nat i := u])" for u
      using 1 True by (simp add: vset_in)
    have step: "cumsumC_loop x na_rm n i out w = cumsumC_loop x na_rm n (i + 1) (out[nat i := v]) w'"
      using True t g1 g2 s by (subst cumsumC_loop.simps) (simp add: v_def w'_def)
    have pre: "n = int (length x)" "length (out[nat i := v]) = length x" "1 \<le> i + 1" "i + 1 \<le> n"
      using "1.prems" True by auto
    have ih: "\<exists>out'. cumsumC_loop x na_rm n (i + 1) (out[nat i := v]) w' =
         Inr \<lparr>vec = out', warnings = w' @ replicate (na_count na_rm x (nat (i + 1))) missing_warning\<rparr> \<and>
       length out' = length x \<and>
       (\<forall>j. j < nat (i + 1) \<longrightarrow> out' ! j = out[nat i := v] ! j) \<and>
       (\<forall>j. nat (i + 1) \<le> j \<and> j < length x \<longrightarrow>
          out' ! j = (if na_rm \<and> is_na (x ! j) then NA_REAL else dadd (out' ! (j - 1)) (x ! j)))"
    proof (cases c)
      case True
      then have "v = NA_REAL" "w' = w @ [missing_warning]" by (simp_all add: v_def w'_def)
      with "1.IH"(1)[OF \<open>i < n\<close> t True s] pre show ?thesis by simp
    next
      case False
      then have "v = dadd (out ! nat (i - 1)) (x ! nat i)" "w' = w" by (simp_all add: v_def w'_def)
      with "1.IH"(2)[OF \<open>i < n\<close> t False g1 g2 s] pre show ?thesis by simp
    qed
    then obtain out' where
      r: "cumsumC_loop x na_rm n (i + 1) (out[nat i := v]) w' =
         Inr \<lparr>vec = out', warnings = w' @ replicate (na_count na_rm x (nat (i + 1))) missing_warning\<rparr>" and
      l: "length out' = length x" and
      k: "\<forall>j. j < nat (i + 1) \<longrightarrow> out' ! j = out[nat i := v] ! j" and
      f: "\<forall>j. nat (i + 1) \<le> j \<and> j < length x \<longrightarrow>
          out' ! j = (if na_rm \<and> is_na (x ! j) then NA_REAL else dadd (out' ! (j - 1)) (x ! j))"
      by blast
    have ni: "nat (i + 1) = Suc (nat i)" "nat (i - 1) = nat i - 1" "0 < nat i" "nat i < length x"
      using "1.prems" True by auto
    have ws: "w' @ replicate (na_count na_rm x (nat (i + 1))) missing_warning =
        w @ replicate (na_count na_rm x (nat i)) missing_warning"
      using na_count_step[OF ni(4), of na_rm] ni(1) by (simp add: w'_def c_def)
    have keep: "\<forall>j. j < nat i \<longrightarrow> out' ! j = out ! j"
      using k ni by auto
    have here: "out' ! nat i = v"
      using k ni "1.prems" by auto
    have prev: "out' ! (nat i - 1) = out ! (nat i - 1)"
      using keep ni by auto
    have "\<forall>j. nat i \<le> j \<and> j < length x \<longrightarrow>
        out' ! j = (if na_rm \<and> is_na (x ! j) then NA_REAL else dadd (out' ! (j - 1)) (x ! j))"
    proof (intro allI impI)
      fix j assume j: "nat i \<le> j \<and> j < length x"
      show "out' ! j = (if na_rm \<and> is_na (x ! j) then NA_REAL else dadd (out' ! (j - 1)) (x ! j))"
      proof (cases "j = nat i")
        case True
        then show ?thesis using here prev ni by (simp add: v_def c_def)
      next
        case False
        then show ?thesis using j f ni by auto
      qed
    qed
    with step r l keep ws show ?thesis by simp
  qed
qed

lemma cumsumC_rec:
  assumes "x \<noteq> []"
  shows "\<exists>out. cumsumC x na_rm =
       Inr \<lparr>vec = out, warnings = replicate (na_count na_rm x 1) missing_warning\<rparr> \<and>
     length out = length x \<and> out ! 0 = x ! 0 \<and>
     (\<forall>j. 1 \<le> j \<and> j < length x \<longrightarrow>
        out ! j = (if na_rm \<and> is_na (x ! j) then NA_REAL else dadd (out ! (j - 1)) (x ! j)))"
proof -
  define out0 where "out0 = (replicate (length x) (Num 0))[0 := x ! 0]"
  have pos: "0 < length x" using assms by simp
  have start: "cumsumC x na_rm = cumsumC_loop x na_rm (int (length x)) 1 out0 []"
    using pos by (simp add: cumsumC_def vsize_def alloc_ok vget_in vset_in out0_def)
  have "length out0 = length x" by (simp add: out0_def)
  from cumsumC_loop_inv[OF refl this, of 1 na_rm "[]"] pos
  obtain out' where
    r: "cumsumC_loop x na_rm (int (length x)) 1 out0 [] =
         Inr \<lparr>vec = out', warnings = replicate (na_count na_rm x 1) missing_warning\<rparr>" and
    l: "length out' = length x" and
    k: "\<forall>j. j < nat 1 \<longrightarrow> out' ! j = out0 ! j" and
    f: "\<forall>j. nat 1 \<le> j \<and> j < length x \<longrightarrow>
        out' ! j = (if na_rm \<and> is_na (x ! j) then NA_REAL else dadd (out' ! (j - 1)) (x ! j))"
    by auto
  have "out' ! 0 = x ! 0" using k pos by (simp add: out0_def)
  with start r l f show ?thesis by simp
qed

section \<open>The loops of the lagged differences\<close>

lemma diffC_lagN_loop_inv:
  "n = int (length x) \<Longrightarrow> 0 \<le> lag \<Longrightarrow> lag \<le> i \<Longrightarrow> i \<le> n \<Longrightarrow> int (length out) = n - lag \<Longrightarrow>
   \<exists>out'. diffC_lagN_loop x lag n i out = Inr out' \<and> length out' = length out \<and>
     (\<forall>j. j < nat (i - lag) \<longrightarrow> out' ! j = out ! j) \<and>
     (\<forall>j. nat (i - lag) \<le> j \<and> j < length out \<longrightarrow> out' ! j = dsub (x ! (j + nat lag)) (x ! j))"
proof (induction x lag n i out rule: diffC_lagN_loop.induct)
  case (1 x lag n i out)
  show ?case
  proof (cases "i < n")
    case False
    with 1 show ?thesis
      by (subst diffC_lagN_loop.simps) auto
  next
    case True
    define v where "v = dsub (x ! nat i) (x ! nat (i - lag))"
    have g1: "vget x i = Inr (x ! nat i)"
      using 1 True by (simp add: vget_in)
    have g2: "vget x (i - lag) = Inr (x ! nat (i - lag))"
      using 1 True by (simp add: vget_in)
    have s: "vset out (i - lag) v = Inr (out[nat (i - lag) := v])"
      using 1 True by (simp add: vset_in)
    have step: "diffC_lagN_loop x lag n i out = diffC_lagN_loop x lag n (i + 1) (out[nat (i - lag) := v])"
      using True g1 g2 s by (subst diffC_lagN_loop.simps) (simp add: v_def)
    from "1.IH"[OF True g1 g2 s[unfolded v_def]] "1.prems" True
    obtain out' where
      r: "diffC_lagN_loop x lag n (i + 1) (out[nat (i - lag) := v]) = Inr out'" and
      l: "length out' = length out" and
      k: "\<forall>j. j < nat (i + 1 - lag) \<longrightarrow> out' ! j = out[nat (i - lag) := v] ! j" and
      f: "\<forall>j. nat (i + 1 - lag) \<le> j \<and> j < length out \<longrightarrow> out' ! j = dsub (x ! (j + nat lag)) (x ! j)"
      by (auto simp: v_def)
    have ni: "nat (i + 1 - lag) = Suc (nat (i - lag))" "nat (i - lag) < length out"
      "nat (i - lag) + nat lag = nat i"
      using "1.prems" True by auto
    have keep: "\<forall>j. j < nat (i - lag) \<longrightarrow> out' ! j = out ! j"
      using k ni by auto
    have here: "out' ! nat (i - lag) = v"
      using k ni by auto
    have "\<forall>j. nat (i - lag) \<le> j \<and> j < length out \<longrightarrow> out' ! j = dsub (x ! (j + nat lag)) (x ! j)"
    proof (intro allI impI)
      fix j assume j: "nat (i - lag) \<le> j \<and> j < length out"
      show "out' ! j = dsub (x ! (j + nat lag)) (x ! j)"
      proof (cases "j = nat (i - lag)")
        case True
        then show ?thesis using here ni by (simp add: v_def)
      next
        case False
        then show ?thesis using j f ni by auto
      qed
    qed
    with step r l keep show ?thesis by simp
  qed
qed

lemma diffC_lagN_ok:
  assumes "0 \<le> lag" and "lag < int (length x)"
  shows "\<exists>out. diffC_lagN x lag = Inr out \<and> int (length out) = int (length x) - lag \<and>
     (\<forall>j. j < length out \<longrightarrow> out ! j = dsub (x ! (j + nat lag)) (x ! j))"
proof -
  define out0 where "out0 = replicate (nat (int (length x) - lag)) (Num 0)"
  have start: "diffC_lagN x lag = diffC_lagN_loop x lag (int (length x)) lag out0"
    using assms by (simp add: diffC_lagN_def vsize_def alloc_ok out0_def Let_def)
  have len: "int (length out0) = int (length x) - lag"
    using assms by (simp add: out0_def)
  from diffC_lagN_loop_inv[OF refl assms(1) _ _ len, of lag] assms
  obtain out' where
    "diffC_lagN_loop x lag (int (length x)) lag out0 = Inr out'" "length out' = length out0"
    "\<forall>j. nat (lag - lag) \<le> j \<and> j < length out0 \<longrightarrow> out' ! j = dsub (x ! (j + nat lag)) (x ! j)"
    by auto
  with start len show ?thesis by simp
qed

lemma diffC_lagN_invalid: "int (length x) \<le> lag \<Longrightarrow> diffC_lagN x lag = Inl InvalidArgument"
  by (simp add: diffC_lagN_def vsize_def)

lemma diffC_lagOne_loop_lagN: "diffC_lagOne_loop x n i out = diffC_lagN_loop x 1 n i out"
proof (induction x n i out rule: diffC_lagOne_loop.induct)
  case (1 x n i out)
  show ?case
    by (subst diffC_lagOne_loop.simps, subst diffC_lagN_loop.simps)
      (auto split: sum.splits simp: 1)
qed

lemma diffC_lagOne_ok:
  assumes "x \<noteq> []"
  shows "\<exists>out. diffC_lagOne x = Inr out \<and> length out = length x - 1 \<and>
     (\<forall>j. j < length out \<longrightarrow> out ! j = dsub (x ! (j + 1)) (x ! j))"
proof -
  define out0 where "out0 = replicate (length x - 1) (Num 0)"
  have pos: "0 < length x" using assms by simp
  then have n1: "nat (int (length x) - 1) = length x - 1" by simp
  have start: "diffC_lagOne x = diffC_lagN_loop x 1 (int (length x)) 1 out0"
    using pos by (simp add: diffC_lagOne_def vsize_def alloc_ok out0_def diffC_lagOne_loop_lagN n1 Let_def)
  have len: "int (length out0) = int (length x) - 1"
    using pos by (cases x) (simp_all add: out0_def)
  from diffC_lagN_loop_inv[OF refl _ _ _ len, of 1] pos
  obtain out' where
    "diffC_lagN_loop x 1 (int (length x)) 1 out0 = Inr out'" "length out' = length out0"
    "\<forall>j. nat (1 - 1) \<le> j \<and> j < length out0 \<longrightarrow> out' ! j = dsub (x ! (j + nat 1)) (x ! j)"
    by auto
  with start show ?thesis by (simp add: out0_def)
qed

lemma diffC_na_loop_inv:
  "n = int (length x) \<Longrightarrow> 0 \<le> lag \<Longrightarrow> lag \<le> i \<Longrightarrow> i \<le> n \<Longrightarrow> int (length out) = n - lag \<Longrightarrow>
   \<exists>out'. diffC_na_loop x lag na_rm n i out w =
       Inr \<lparr>vec = out', warnings = w @ replicate (na_count na_rm x (nat i)) missing_warning\<rparr> \<and>
     length out' = length out \<and>
     (\<forall>j. j < nat (i - lag) \<longrightarrow> out' ! j = out ! j) \<and>
     (\<forall>j. nat (i - lag) \<le> j \<and> j < length out \<longrightarrow>
        out' ! j = (if na_rm \<and> is_na (x ! (j + nat lag)) then NA_REAL
                    else dsub (x ! (j + nat lag)) (x ! j)))"
proof (induction x lag na_rm n i out w rule: diffC_na_loop.induct)
  case (1 x lag na_rm n i out w)
  show ?case
  proof (cases "i < n")
    case False
    with 1 show ?thesis
      by (subst diffC_na_loop.simps) (auto simp: na_count_end)
  next
    case True
    define c where "c = (na_rm \<and> is_na (x ! nat i))"
    define v where "v = (if c then NA_REAL else dsub (x ! nat i) (x ! nat (i - lag)))"
    define w' where "w' = (if c then w @ [missing_warning] else w)"
    have t: "na_test na_rm x i = Inr c"
      using 1 True by (simp add: na_test_in c_def)
    have g1: "vget x i = Inr (x ! nat i)"
      using 1 True by (simp add: vget_in)
    have g2: "vget x (i - lag) = Inr (x ! nat (i - lag))"
      using 1 True by (simp add: vget_in)
    have s: "vset out (i - lag) u = Inr (out[nat (i - lag) := u])" for u
      using 1 True by (simp add: vset_in)
    have step: "diffC_na_loop x lag na_rm n i out w =
        diffC_na_loop x lag na_rm n (i + 1) (out[nat (i - lag) := v]) w'"
      using True t g1 g2 s by (subst diffC_na_loop.simps) (simp add: v_def w'_def)
    have pre: "n = int (length x)" "0 \<le> lag" "lag \<le> i + 1" "i + 1 \<le> n"
      "int (length (out[nat (i - lag) := v])) = n - lag"
      using "1.prems" True by auto
    have ih: "\<exists>out'. diffC_na_loop x lag na_rm n (i + 1) (out[nat (i - lag) := v]) w' =
         Inr \<lparr>vec = out', warnings = w' @ replicate (na_count na_rm x (nat (i + 1))) missing_warning\<rparr> \<and>
       length out' = length (out[nat (i - lag) := v]) \<and>
       (\<forall>j. j < nat (i + 1 - lag) \<longrightarrow> out' ! j = out[nat (i - lag) := v] ! j) \<and>
       (\<forall>j. nat (i + 1 - lag) \<le> j \<and> j < length (out[nat (i - lag) := v]) \<longrightarrow>
          out' ! j = (if na_rm \<and> is_na (x ! (j + nat lag)) then NA_REAL
                      else dsub (x ! (j + nat lag)) (x ! j)))"
    proof (cases c)
      case True
      then have "v = NA_REAL" "w' = w @ [missing_warning]" by (simp_all add: v_def w'_def)
      with "1.IH"(1)[OF \<open>i < n\<close> t True s] pre show ?thesis by simp
    next
      case False
      then have "v = dsub (x ! nat i) (x ! nat (i - lag))" "w' = w" by (simp_all add: v_def w'_def)
      with "1.IH"(2)[OF \<open>i < n\<close> t False g1 g2 s] pre show ?thesis by simp
    qed
    then obtain out' where
      r: "diffC_na_loop x lag na_rm n (i + 1) (out[nat (i - lag) := v]) w' =
         Inr \<lparr>vec = out', warnings = w' @ replicate (na_count na_rm x (nat (i + 1))) missing_warning\<rparr>" and
      l: "length out' = length out" and
      k: "\<forall>j. j < nat (i + 1 - lag) \<longrightarrow> out' ! j = out[nat (i - lag) := v] ! j" and
      f: "\<forall>j. nat (i + 1 - lag) \<le> j \<and> j < length out \<longrightarrow>
          out' ! j = (if na_rm \<and> is_na (x ! (j + nat lag)) then NA_REAL
                      else dsub (x ! (j + nat lag)) (x ! j))"
      by auto
    have ni: "nat (i + 1 - lag) = Suc (nat (i - lag))" "nat (i - lag) < length out"
      "nat (i - lag) + nat lag = nat i" "nat (i + 1) = Suc (nat i)" "nat i < length x"
      using "1.prems" True by auto
    have ws: "w' @ replicate (na_count na_rm x (nat (i + 1))) missing_warning =
        w @ replicate (na_count na_rm x (nat i)) missing_warning"
      using na_count_step[OF ni(5), of na_rm] ni(4) by (simp add: w'_def c_def)
    have keep: "\<forall>j. j < nat (i - lag) \<longrightarrow> out' ! j = out ! j"
      using k ni by auto
    have here: "out' ! nat (i - lag) = v"
      using k ni by auto
    have "\<forall>j. nat (i - lag) \<le> j \<and> j < length out \<longrightarrow>
        out' ! j = (if na_rm \<and> is_na (x ! (j + nat lag)) then NA_REAL
                    else dsub (x ! (j + nat lag)) (x ! j))"
    proof (intro allI impI)
      fix j assume j: "nat (i - lag) \<le> j \<and> j < length out"
      show "out' ! j = (if na_rm \<and> is_na (x ! (j + nat lag)) then NA_REAL
                    else dsub (x ! (j + nat lag)) (x ! j))"
      proof (cases "j = nat (i - lag)")
        case True
        then show ?thesis using here ni by (simp add: v_def c_def)
      next
        case False
        then show ?thesis using j f ni by auto
      qed
    qed
    with step r l keep ws show ?thesis by simp
  qed
qed

lemma diffC_na_ok:
  assumes "0 \<le> lag" and "lag < int (length x)"
  shows "\<exists>out. diffC_na x lag na_rm =
       Inr \<lparr>vec = out, warnings = replicate (na_count na_rm x (nat lag)) missing_warning\<rparr> \<and>
     int (length out) = int (length x) - lag \<and>
     (\<forall>j. j < length out \<longrightarrow>
        out ! j = (if na_rm \<and> is_na (x ! (j + nat lag)) then NA_REAL
                   else dsub (x ! (j + nat lag)) (x ! j)))"
proof -
  define out0 where "out0 = replicate (nat (int (length x) - lag)) (Num 0)"
  have start: "diffC_na x lag na_rm = diffC_na_loop x lag na_rm (int (length x)) lag out0 []"
    using assms by (simp add: diffC_na_def vsize_def alloc_ok out0_def Let_def)
  have len: "int (length out0) = int (length x) - lag"
    using assms by (simp add: out0_def)
  from diffC_na_loop_inv[OF refl assms(1) _ _ len, of lag na_rm "[]"] assms
  obtain out' where
    "diffC_na_loop x lag na_rm (int (length x)) lag out0 [] =
       Inr \<lparr>vec = out', warnings = replicate (na_count na_rm x (nat lag)) missing_warning\<rparr>"
    "length out' = length out0"
    "\<forall>j. nat (lag - lag) \<le> j \<and> j < length out0 \<longrightarrow>
        out' ! j = (if na_rm \<and> is_na (x ! (j + nat lag)) then NA_REAL
                    else dsub (x ! (j + nat lag)) (x ! j))"
    by auto
  with start len show ?thesis by simp
qed

lemma diffC_na_invalid: "int (length x) \<le> lag \<Longrightarrow> diffC_na x lag na_rm = Inl InvalidArgument"
  by (simp add: diffC_na_def vsize_def)

section \<open>Missing values, lags and empty inputs\<close>

text \<open>
  C1 (as stated). On \<open>[1, NA, 3]\<close> with \<open>na_rm = true\<close> the claim expects \<open>[1, NA, 4]\<close>,
  the running total carried past the skipped position. \<open>cumsumC\<close> does not return that.
\<close>

theorem cumsumC_carry_counterexample:
  "map_sum id vec (cumsumC [Num 1, NA_REAL, Num 3] True) \<noteq> Inr [Num 1, NA_REAL, Num 4]"
  by code_simp

text \<open>
  C1 (amended). On \<open>[1, NA, 3]\<close> with \<open>na_rm = true\<close>, \<open>cumsumC\<close> returns \<open>[1, NA, NA]\<close>
  and signals one warning: position 1 is set to \<open>NA_REAL\<close>, and position 2 is
  \<open>out[1] + x[2]\<close>, the sum of that stored \<open>NA_REAL\<close> and 3, which is missing again.
\<close>

theorem cumsumC_missing_propagates:
  "cumsumC [Num 1, NA_REAL, Num 3] True =
     Inr \<lparr>vec = [Num 1, NA_REAL, NA_REAL], warnings = [missing_warning]\<rparr>"
  by code_simp

text \<open>
  C2. On the empty vector \<open>rangeC\<close> and \<open>na_rangeC\<close> do not reach their test \<open>n == 0\<close>
  first: the initialisation of \<open>omin\<close> and \<open>omax\<close> reads \<open>x[0]\<close>, a subscript out of
  bounds, before it.
\<close>

theorem range_empty_reads_before_check:
  "rangeC [] = Inl (OutOfBounds 0) \<and>
   na_rangeC [] True = Inl (OutOfBounds 0) \<and>
   na_rangeC [] False = Inl (OutOfBounds 0)"
  by (simp add: rangeC_def na_rangeC_def vget_def vsize_def)

text \<open>
  C3 (as stated). The claim expects every \<open>diffC\<close> to fail with \<open>InvalidArgument\<close> when
  \<open>lag \<ge> length(x)\<close> and to return \<open>length(x) - lag\<close> elements for every other lag.
  The fixed-lag-1 \<open>diffC\<close> has no such test: on a one-element vector it returns the empty
  vector. With a negative lag the parametrized \<open>diffC\<close> passes its test and then reads
  \<open>x[lag]\<close>, out of bounds.
\<close>

theorem diffC_invalid_lag_counterexample:
  "diffC_lagOne [Num 5] = Inr [] \<and>
   diffC_lagN [Num 1, Num 2, Num 3] (- 1) = Inl (OutOfBounds (- 1))"
  by code_simp

text \<open>
  C3 (amended). The parametrized-lag \<open>diffC\<close> and the missing-aware \<open>diffC\<close> fail with
  \<open>InvalidArgument\<close> when \<open>lag \<ge> length(x)\<close>, and for \<open>0 \<le> lag < length(x)\<close> return
  exactly \<open>length(x) - lag\<close> elements. The fixed-lag-1 \<open>diffC\<close> returns exactly
  \<open>length(x) - 1\<close> elements for every non-empty \<open>x\<close>.
\<close>

theorem diffC_length_or_invalid:
  "(int (length x) \<le> lag \<longrightarrow>
      diffC_lagN x lag = Inl InvalidArgument \<and> diffC_na x lag na_rm = Inl InvalidArgument) \<and>
   (0 \<le> lag \<and> lag < int (length x) \<longrightarrow>
      (\<exists>out. diffC_lagN x lag = Inr out \<and> int (length out) = int (length x) - lag) \<and>
      (\<exists>r. diffC_na x lag na_rm = Inr r \<and> int (length (vec r)) = int (length x) - lag)) \<and>
   (x \<noteq> [] \<longrightarrow> (\<exists>out. diffC_lagOne x = Inr out \<and> length out = length x - 1))"
proof (intro conjI impI)
  assume "int (length x) \<le> lag"
  then show "diffC_lagN x lag = Inl InvalidArgument" by (rule diffC_lagN_invalid)
next
  assume "int (length x) \<le> lag"
  then show "diffC_na x lag na_rm = Inl InvalidArgument" by (rule diffC_na_invalid)
next
  assume "0 \<le> lag \<and> lag < int (length x)"
  then show "\<exists>out. diffC_lagN x lag = Inr out \<and> int (length out) = int (length x) - lag"
    using diffC_lagN_ok[of lag x] by blast
next
  assume a: "0 \<le> lag \<and> lag < int (length x)"
  from a diffC_na_ok[of lag x na_rm] obtain out where
    "diffC_na x lag na_rm =
       Inr \<lparr>vec = out, warnings = replicate (na_count na_rm x (nat lag)) missing_warning\<rparr>"
    "int (length out) = int (length x) - lag"
    by blast
  then show "\<exists>r. diffC_na x lag na_rm = Inr r \<and> int (length (vec r)) = int (length x) - lag"
    by simp
next
  assume "x \<noteq> []"
  then show "\<exists>out. diffC_lagOne x = Inr out \<and> length out = length x - 1"
    using diffC_lagOne_ok[of x] by blast
qed

theorem diffC_length_or_invalid_witness:
  "diffC_lagN [Num 1, Num 3, Num 6, Num 10] 4 = Inl InvalidArgument \<and>
   diffC_na [Num 1, Num 3, Num 6, Num 10] 4 True = Inl InvalidArgument \<and>
   (\<exists>out. diffC_lagN [Num 1, Num 3, Num 6, Num 10] 1 = Inr out \<and> int (length out) = 3) \<and>
   (\<exists>r. diffC_na [Num 1, Num 3, Num 6, Num 10] 1 True = Inr r \<and> int (length (vec r)) = 3) \<and>
   (\<exists>out. diffC_lagOne [Num 1, Num 3, Num 6, Num 10] = Inr out \<and> length out = 3)"
  using diffC_length_or_invalid[of "[Num 1, Num 3, Num 6, Num 10]" 4 True]
    diffC_length_or_invalid[of "[Num 1, Num 3, Num 6, Num 10]" 1 True]
  by (simp add: eval_nat_numeral)

text \<open>
  C7. In the missing-aware \<open>diffC\<close> with \<open>na_rm = true\<close> and a lag \<open>0 \<le> lag < length(x)\<close>,
  for every output position \<open>i\<close> (the pair \<open>(i, i + lag)\<close>): when \<open>x[i + lag]\<close> is missing
  the output is \<open>NA_REAL\<close> and a warning is signalled; when \<open>x[i + lag]\<close> is present the
  output is the subtraction \<open>x[i + lag] - x[i]\<close>, whether or not \<open>x[i]\<close> is missing. The
  warnings are one per missing element among \<open>x[lag], ..., x[n - 1]\<close>: the earlier index
  is never tested.
\<close>

theorem diffC_na_checks_later_index_only:
  assumes "0 \<le> lag" and "lag < int (length x)"
  shows "\<exists>r. diffC_na x lag True = Inr r \<and> int (length (vec r)) = int (length x) - lag \<and>
     warnings r = replicate (length (filter is_na (drop (nat lag) x))) missing_warning \<and>
     (\<forall>i. i < length (vec r) \<longrightarrow>
        (is_na (x ! (i + nat lag)) \<longrightarrow>
           vec r ! i = NA_REAL \<and> missing_warning \<in> set (warnings r)) \<and>
        (\<not> is_na (x ! (i + nat lag)) \<longrightarrow>
           vec r ! i = dsub (x ! (i + nat lag)) (x ! i)))"
proof -
  from diffC_na_ok[OF assms, of True] obtain out where
    r: "diffC_na x lag True =
       Inr \<lparr>vec = out, warnings = replicate (na_count True x (nat lag)) missing_warning\<rparr>" and
    l: "int (length out) = int (length x) - lag" and
    f: "\<forall>j. j < length out \<longrightarrow>
        out ! j = (if True \<and> is_na (x ! (j + nat lag)) then NA_REAL
                   else dsub (x ! (j + nat lag)) (x ! j))"
    by blast
  have warned: "missing_warning \<in> set (replicate (na_count True x (nat lag)) missing_warning)"
    if "i < length out" "is_na (x ! (i + nat lag))" for i
  proof -
    have "nat lag \<le> i + nat lag \<and> i + nat lag < length x \<and> is_na (x ! (i + nat lag))"
      using that l assms by auto
    then have "0 < na_count True x (nat lag)"
      unfolding na_count_pos by blast
    then show ?thesis by simp
  qed
  show ?thesis
    using r l f warned by (auto simp: na_count_def)
qed

theorem diffC_na_checks_later_index_only_witness:
  "(0::int) \<le> 1 \<and> 1 < int (length [NA_REAL, Num 2, NA_REAL, Num 7]) \<and>
   (\<exists>r. diffC_na [NA_REAL, Num 2, NA_REAL, Num 7] 1 True = Inr r \<and>
      int (length (vec r)) = int (length [NA_REAL, Num 2, NA_REAL, Num 7]) - 1 \<and>
      warnings r =
        replicate (length (filter is_na (drop (nat 1) [NA_REAL, Num 2, NA_REAL, Num 7])))
          missing_warning \<and>
      (\<forall>i. i < length (vec r) \<longrightarrow>
        (is_na ([NA_REAL, Num 2, NA_REAL, Num 7] ! (i + nat 1)) \<longrightarrow>
           vec r ! i = NA_REAL \<and> missing_warning \<in> set (warnings r)) \<and>
        (\<not> is_na ([NA_REAL, Num 2, NA_REAL, Num 7] ! (i + nat 1)) \<longrightarrow>
           vec r ! i =
             dsub ([NA_REAL, Num 2, NA_REAL, Num 7] ! (i + nat 1))
               ([NA_REAL, Num 2, NA_REAL, Num 7] ! i))))"
proof -
  have h: "(0::int) \<le> 1" "1 < int (length [NA_REAL, Num 2, NA_REAL, Num 7])" by simp_all
  from diffC_na_checks_later_index_only[OF h] h show ?thesis by blast
qed

section \<open>What the range kernels return\<close>

lemma std_min_Num: "std_min (Num a) (Num b) = Num (min a b)"
  by (simp add: std_min_def min_def)

lemma std_max_Num: "std_max (Num a) (Num b) = Num (max a b)"
  by (simp add: std_max_def max_def)

lemma pair_out_eq: "pair_out omin omax = Inr [omin, omax]"
  by (simp add: pair_out_def alloc_def vset_def vsize_def eval_nat_numeral)

lemma Min_insert_min: "finite S \<Longrightarrow> Min (insert (min v a) S) = Min (insert a (insert (v::real) S))"
  by (cases "S = {}") (simp_all add: min.commute min.assoc)

lemma Max_insert_max: "finite S \<Longrightarrow> Max (insert (max v a) S) = Max (insert a (insert (v::real) S))"
  by (cases "S = {}") (simp_all add: max.commute max.assoc)

lemma rangeC_loop_num:
  "n = int (length xs) \<Longrightarrow> 0 \<le> i \<Longrightarrow> i \<le> n \<Longrightarrow>
   rangeC_loop (map Num xs) n i (Num a) (Num b) =
     Inr (Num (Min (insert a (set (drop (nat i) xs)))), Num (Max (insert b (set (drop (nat i) xs)))))"
proof (induction "nat (n - i)" arbitrary: i a b)
  case 0
  then show ?case
    by (subst rangeC_loop.simps) simp
next
  case (Suc k)
  then have lt: "i < n" and k: "k = nat (n - (i + 1))" by auto
  have g: "vget (map Num xs) i = Inr (Num (xs ! nat i))"
    using Suc.prems lt by (simp add: vget_in)
  have d: "drop (nat i) xs = xs ! nat i # drop (nat (i + 1)) xs"
    using Suc.prems lt by (simp add: Cons_nth_drop_Suc nat_add_distrib)
  have "rangeC_loop (map Num xs) n i (Num a) (Num b) =
      rangeC_loop (map Num xs) n (i + 1) (Num (min (xs ! nat i) a)) (Num (max (xs ! nat i) b))"
    using lt g by (subst rangeC_loop.simps) (simp add: std_min_Num std_max_Num)
  also have "\<dots> = Inr (Num (Min (insert (min (xs ! nat i) a) (set (drop (nat (i + 1)) xs)))),
                       Num (Max (insert (max (xs ! nat i) b) (set (drop (nat (i + 1)) xs)))))"
    using Suc.hyps(1)[OF k] Suc.prems lt by simp
  finally show ?case
    by (simp add: d Min_insert_min Max_insert_max)
qed

text \<open>
  C8. For every non-empty vector of numbers (no missing element) \<open>rangeC\<close> returns the
  two-element vector holding the minimum of all elements, then the maximum of all elements.
\<close>

theorem rangeC_min_max:
  assumes "xs \<noteq> []"
  shows "rangeC (map Num xs) = Inr [Num (Min (set xs)), Num (Max (set xs))]"
proof -
  have pos: "0 < length xs" using assms by simp
  have g: "vget (map Num xs) 0 = Inr (Num (xs ! 0))"
    using pos by (simp add: vget_in)
  have s: "insert (xs ! 0) (set (drop (Suc 0) xs)) = set xs"
    using assms by (cases xs) auto
  have "rangeC_loop (map Num xs) (int (length xs)) 1 (Num (xs ! 0)) (Num (xs ! 0)) =
      Inr (Num (Min (set xs)), Num (Max (set xs)))"
    using rangeC_loop_num[OF refl, of 1 xs "xs ! 0" "xs ! 0"] pos by (simp add: s)
  then show ?thesis
    using pos g by (simp add: rangeC_def vsize_def pair_out_eq)
qed

theorem rangeC_min_max_witness:
  "[5, 1, 9, 3] \<noteq> ([] :: real list) \<and> rangeC (map Num [5, 1, 9, 3]) = Inr [Num 1, Num 9]"
  using rangeC_min_max[of "[5, 1, 9, 3]"] by simp

lemma na_rangeC_loop_na:
  "n = int (length x) \<Longrightarrow> 0 \<le> i \<Longrightarrow> i \<le> n \<Longrightarrow>
   \<exists>j. nat i \<le> j \<and> j < length x \<and> is_na (x ! j) \<Longrightarrow>
   na_rangeC_loop x True n i omin omax = Inr (Inl [NA_REAL])"
proof (induction "nat (n - i)" arbitrary: i omin omax)
  case 0
  then show ?case by auto
next
  case (Suc k)
  then have lt: "i < n" and k: "k = nat (n - (i + 1))" by auto
  have t: "na_test True x i = Inr (is_na (x ! nat i))"
    using Suc.prems lt by (simp add: na_test_in)
  show ?case
  proof (cases "is_na (x ! nat i)")
    case True
    then show ?thesis
      using lt t by (subst na_rangeC_loop.simps) (simp add: alloc_def)
  next
    case False
    from Suc.prems(4) obtain j where j: "nat i \<le> j" "j < length x" "is_na (x ! j)" by blast
    with False have "j \<noteq> nat i" by auto
    with j Suc.prems have later: "\<exists>j. nat (i + 1) \<le> j \<and> j < length x \<and> is_na (x ! j)"
      by (intro exI[of _ j]) auto
    have g: "vget x i = Inr (x ! nat i)"
      using Suc.prems lt by (simp add: vget_in)
    have "na_rangeC_loop x True n i omin omax =
        na_rangeC_loop x True n (i + 1) (std_min (x ! nat i) omin) (std_max (x ! nat i) omax)"
      using lt t g False by (subst na_rangeC_loop.simps) simp
    also have "\<dots> = Inr (Inl [NA_REAL])"
      using Suc.hyps(1)[OF k _ _ _ later] Suc.prems lt by simp
    finally show ?thesis .
  qed
qed

text \<open>
  C6. For every non-empty vector with at least one missing element, at any position,
  \<open>na_rangeC\<close> with \<open>na_rm = true\<close> returns the one-element vector holding \<open>NA_REAL\<close>
  instead of the pair of minimum and maximum, and signals no warning.
\<close>

theorem na_rangeC_short_circuit:
  assumes "x \<noteq> []" and "j < length x" and "is_na (x ! j)"
  shows "na_rangeC x True = Inr \<lparr>vec = [NA_REAL], warnings = []\<rparr>"
proof -
  have pos: "0 < length x" using assms by simp
  have g: "vget x 0 = Inr (x ! 0)"
    using pos by (simp add: vget_in)
  have "\<exists>j. nat 0 \<le> j \<and> j < length x \<and> is_na (x ! j)"
    using assms by auto
  from na_rangeC_loop_na[OF refl _ _ this, of "x ! 0" "x ! 0"]
  have "na_rangeC_loop x True (int (length x)) 0 (x ! 0) (x ! 0) = Inr (Inl [NA_REAL])"
    by simp
  then show ?thesis
    using pos g by (simp add: na_rangeC_def vsize_def)
qed

theorem na_rangeC_short_circuit_witness:
  "[Num 5, Num 1, NA_REAL, Num 3] \<noteq> [] \<and> (2::nat) < length [Num 5, Num 1, NA_REAL, Num 3] \<and>
   is_na ([Num 5, Num 1, NA_REAL, Num 3] ! 2) \<and>
   na_rangeC [Num 5, Num 1, NA_REAL, Num 3] True = Inr \<lparr>vec = [NA_REAL], warnings = []\<rparr>"
proof -
  have h: "[Num 5, Num 1, NA_REAL, Num 3] \<noteq> []" "(2::nat) < length [Num 5, Num 1, NA_REAL, Num 3]"
    "is_na ([Num 5, Num 1, NA_REAL, Num 3] ! 2)" by simp_all
  from na_rangeC_short_circuit[OF h] h show ?thesis by blast
qed

section \<open>The kernels with \<open>na_rm = false\<close>\<close>

lemma na_test_False: "na_test False x i = Inr False"
  by (simp add: na_test_def)

lemma diffC_na_loop_False:
  "diffC_na_loop x lag False n i out w =
     map_sum id (\<lambda>out. \<lparr>vec = out, warnings = w\<rparr>) (diffC_lagN_loop x lag n i out)"
proof (induction x lag n i out rule: diffC_lagN_loop.induct)
  case (1 x lag n i out)
  show ?case
    by (subst diffC_na_loop.simps, subst diffC_lagN_loop.simps)
      (auto split: sum.splits simp: na_test_False 1 id_def)
qed

lemma diffC_na_False:
  "diffC_na x lag False =
     map_sum id (\<lambda>out. \<lparr>vec = out, warnings = []\<rparr>) (diffC_lagN x lag)"
  by (auto simp: diffC_na_def diffC_lagN_def Let_def diffC_na_loop_False split: sum.splits)

lemma na_rangeC_loop_False:
  "na_rangeC_loop x False n i omin omax = map_sum id Inr (rangeC_loop x n i omin omax)"
proof (induction x n i omin omax rule: rangeC_loop.induct)
  case (1 x n i omin omax)
  show ?case
    by (subst na_rangeC_loop.simps, subst rangeC_loop.simps)
      (auto split: sum.splits simp: na_test_False 1 id_def)
qed

lemma std_min_same: "std_min a a = a"
  by (simp add: std_min_def)

lemma std_max_same: "std_max a a = a"
  by (simp add: std_max_def)

lemma na_rangeC_False:
  "na_rangeC x False = map_sum id (\<lambda>out. \<lparr>vec = out, warnings = []\<rparr>) (rangeC x)"
proof (cases x)
  case Nil
  then show ?thesis
    by (simp add: na_rangeC_def rangeC_def vget_def vsize_def)
next
  case (Cons a xs)
  have g: "vget x 0 = Inr a" "vsize x \<noteq> 0" "0 < vsize x"
    using Cons by (simp_all add: vget_def vsize_def)
  have "na_rangeC_loop x False (vsize x) 0 a a = na_rangeC_loop x False (vsize x) 1 a a"
    using g by (subst na_rangeC_loop.simps) (simp add: na_test_False std_min_same std_max_same)
  then show ?thesis
    using g by (auto simp: na_rangeC_def rangeC_def Let_def na_rangeC_loop_False pair_out_eq
        split: sum.splits)
qed

lemma na_rangeC_no_warning: "na_rangeC x na_rm = Inr r \<Longrightarrow> warnings r = []"
  by (auto simp: na_rangeC_def Let_def split: sum.splits if_splits prod.splits)

text \<open>
  C9 (as stated). The claim expects the warning whenever \<open>na_rm\<close> is enabled and a missing
  value stands at a tested position, in each of the three kernels. \<open>na_rangeC\<close> tests
  position 1 of \<open>[1, NA]\<close>, finds it missing and returns without a warning.
\<close>

theorem na_rangeC_warning_counterexample:
  "na_rangeC [Num 1, NA_REAL] True = Inr \<lparr>vec = [NA_REAL], warnings = []\<rparr>"
  by code_simp

text \<open>
  C9 (amended). With \<open>na_rm = false\<close> each missing-aware kernel takes the arithmetic branch
  at every element and signals no warning, missing values or not: \<open>cumsumC\<close> satisfies
  \<open>out[i] = out[i - 1] + x[i]\<close> for every \<open>i \<ge> 1\<close>, the missing-aware \<open>diffC\<close> is the
  parametrized-lag \<open>diffC\<close>, and \<open>na_rangeC\<close> is \<open>rangeC\<close>. \<open>cumsumC\<close> and the
  missing-aware \<open>diffC\<close> signal a warning if and only if \<open>na_rm\<close> is enabled and a
  missing value stands at a tested position (index \<open>\<ge> 1\<close>, respectively \<open>\<ge> lag\<close>);
  \<open>na_rangeC\<close> never signals a warning.
\<close>

theorem na_rm_false_ordinary_branch:
  "(x \<noteq> [] \<longrightarrow>
      (\<exists>out. cumsumC x False = Inr \<lparr>vec = out, warnings = []\<rparr> \<and> length out = length x \<and>
         out ! 0 = x ! 0 \<and>
         (\<forall>i. 1 \<le> i \<and> i < length x \<longrightarrow> out ! i = dadd (out ! (i - 1)) (x ! i)))) \<and>
   diffC_na x lag False = map_sum id (\<lambda>out. \<lparr>vec = out, warnings = []\<rparr>) (diffC_lagN x lag) \<and>
   na_rangeC x False = map_sum id (\<lambda>out. \<lparr>vec = out, warnings = []\<rparr>) (rangeC x) \<and>
   (x \<noteq> [] \<longrightarrow>
      (\<exists>r. cumsumC x na_rm = Inr r \<and>
         (warnings r \<noteq> [] \<longleftrightarrow> na_rm \<and> (\<exists>i. 1 \<le> i \<and> i < length x \<and> is_na (x ! i))))) \<and>
   (0 \<le> lag \<and> lag < int (length x) \<longrightarrow>
      (\<exists>r. diffC_na x lag na_rm = Inr r \<and>
         (warnings r \<noteq> [] \<longleftrightarrow> na_rm \<and> (\<exists>i. nat lag \<le> i \<and> i < length x \<and> is_na (x ! i))))) \<and>
   (\<forall>r. na_rangeC x na_rm = Inr r \<longrightarrow> warnings r = [])"
proof (intro conjI impI allI)
  assume "x \<noteq> []"
  from cumsumC_rec[OF this, of False]
  show "\<exists>out. cumsumC x False = Inr \<lparr>vec = out, warnings = []\<rparr> \<and> length out = length x \<and>
         out ! 0 = x ! 0 \<and>
         (\<forall>i. 1 \<le> i \<and> i < length x \<longrightarrow> out ! i = dadd (out ! (i - 1)) (x ! i))"
    by (simp add: na_count_def)
next
  show "diffC_na x lag False = map_sum id (\<lambda>out. \<lparr>vec = out, warnings = []\<rparr>) (diffC_lagN x lag)"
    by (rule diffC_na_False)
next
  show "na_rangeC x False = map_sum id (\<lambda>out. \<lparr>vec = out, warnings = []\<rparr>) (rangeC x)"
    by (rule na_rangeC_False)
next
  assume "x \<noteq> []"
  from cumsumC_rec[OF this, of na_rm] obtain out where
    r: "cumsumC x na_rm = Inr \<lparr>vec = out, warnings = replicate (na_count na_rm x 1) missing_warning\<rparr>"
    by blast
  have "replicate (na_count na_rm x 1) missing_warning \<noteq> [] \<longleftrightarrow> 0 < na_count na_rm x 1"
    by simp
  with r show "\<exists>r. cumsumC x na_rm = Inr r \<and>
         (warnings r \<noteq> [] \<longleftrightarrow> na_rm \<and> (\<exists>i. 1 \<le> i \<and> i < length x \<and> is_na (x ! i)))"
    by (simp add: na_count_pos)
next
  assume a: "0 \<le> lag \<and> lag < int (length x)"
  then have "0 \<le> lag" "lag < int (length x)" by simp_all
  from diffC_na_ok[OF this, of na_rm] obtain out where
    r: "diffC_na x lag na_rm =
       Inr \<lparr>vec = out, warnings = replicate (na_count na_rm x (nat lag)) missing_warning\<rparr>"
    by blast
  have "replicate (na_count na_rm x (nat lag)) missing_warning \<noteq> [] \<longleftrightarrow>
      0 < na_count na_rm x (nat lag)"
    by simp
  with r show "\<exists>r. diffC_na x lag na_rm = Inr r \<and>
         (warnings r \<noteq> [] \<longleftrightarrow> na_rm \<and> (\<exists>i. nat lag \<le> i \<and> i < length x \<and> is_na (x ! i)))"
    by (simp add: na_count_pos)
next
  fix r assume "na_rangeC x na_rm = Inr r"
  then show "warnings r = []" by (rule na_rangeC_no_warning)
qed

theorem na_rm_false_ordinary_branch_witness:
  "[Num 1, NA_REAL, Num 3] \<noteq> [] \<and> (0::int) \<le> 1 \<and> 1 < int (length [Num 1, NA_REAL, Num 3]) \<and>
   (\<exists>out. cumsumC [Num 1, NA_REAL, Num 3] False = Inr \<lparr>vec = out, warnings = []\<rparr> \<and>
      length out = length [Num 1, NA_REAL, Num 3] \<and> out ! 0 = [Num 1, NA_REAL, Num 3] ! 0 \<and>
      (\<forall>i. 1 \<le> i \<and> i < length [Num 1, NA_REAL, Num 3] \<longrightarrow>
         out ! i = dadd (out ! (i - 1)) ([Num 1, NA_REAL, Num 3] ! i))) \<and>
   diffC_na [Num 1, NA_REAL, Num 3] 1 False =
     map_sum id (\<lambda>out. \<lparr>vec = out, warnings = []\<rparr>) (diffC_lagN [Num 1, NA_REAL, Num 3] 1) \<and>
   na_rangeC [Num 1, NA_REAL, Num 3] False =
     map_sum id (\<lambda>out. \<lparr>vec = out, warnings = []\<rparr>) (rangeC [Num 1, NA_REAL, Num 3]) \<and>
   (\<exists>r. cumsumC [Num 1, NA_REAL, Num 3] True = Inr r \<and>
      (warnings r \<noteq> [] \<longleftrightarrow>
         True \<and> (\<exists>i. 1 \<le> i \<and> i < length [Num 1, NA_REAL, Num 3] \<and> is_na ([Num 1, NA_REAL, Num 3] ! i)))) \<and>
   (\<exists>r. diffC_na [Num 1, NA_REAL, Num 3] 1 True = Inr r \<and>
      (warnings r \<noteq> [] \<longleftrightarrow>
         True \<and> (\<exists>i. nat 1 \<le> i \<and> i < length [Num 1, NA_REAL, Num 3] \<and> is_na ([Num 1, NA_REAL, Num 3] ! i)))) \<and>
   (\<exists>r. na_rangeC [Num 1, NA_REAL, Num 3] True = Inr r \<and> warnings r = [])"
proof -
  have h: "[Num 1, NA_REAL, Num 3] \<noteq> []" "(0::int) \<le> 1" "1 < int (length [Num 1, NA_REAL, Num 3])"
    by simp_all
  have e: "na_rangeC [Num 1, NA_REAL, Num 3] True = Inr \<lparr>vec = [NA_REAL], warnings = []\<rparr>"
    by code_simp
  from na_rm_false_ordinary_branch[of "[Num 1, NA_REAL, Num 3]" 1 False]
    na_rm_false_ordinary_branch[of "[Num 1, NA_REAL, Num 3]" 1 True] h e
  show ?thesis by blast
qed

section \<open>What the variance kernel returns\<close>

lemma varC_mean_loop_foldl:
  "n = int (length x) \<Longrightarrow> 0 \<le> i \<Longrightarrow> i \<le> n \<Longrightarrow>
   varC_mean_loop A x n i mx =
     Inr (foldl (\<lambda>mx v. fp_add A mx (fp_div A v (fp_int A n))) mx (drop (nat i) x))"
proof (induction "nat (n - i)" arbitrary: i mx)
  case 0
  then show ?case
    by (subst varC_mean_loop.simps) simp
next
  case (Suc k)
  then have lt: "i < n" and k: "k = nat (n - (i + 1))" by auto
  have g: "vget x i = Inr (x ! nat i)"
    using Suc.prems lt by (simp add: vget_in)
  have d: "drop (nat i) x = x ! nat i # drop (nat (i + 1)) x"
    using Suc.prems lt by (simp add: Cons_nth_drop_Suc nat_add_distrib)
  have "varC_mean_loop A x n i mx =
      varC_mean_loop A x n (i + 1) (fp_add A mx (fp_div A (x ! nat i) (fp_int A n)))"
    using lt g by (subst varC_mean_loop.simps) simp
  also have "\<dots> = Inr (foldl (\<lambda>mx v. fp_add A mx (fp_div A v (fp_int A n)))
      (fp_add A mx (fp_div A (x ! nat i) (fp_int A n))) (drop (nat (i + 1)) x))"
    using Suc.hyps(1)[OF k] Suc.prems lt by simp
  finally show ?case
    by (simp add: d)
qed

lemma varC_dev_loop_foldl:
  "n = int (length x) \<Longrightarrow> 0 \<le> i \<Longrightarrow> i \<le> n \<Longrightarrow>
   varC_dev_loop A x n i mx out =
     Inr (foldl (\<lambda>s v. fp_add A s (fp_pow A (fp_sub A v mx) (fp_int A 2))) out (drop (nat i) x))"
proof (induction "nat (n - i)" arbitrary: i out)
  case 0
  then show ?case
    by (subst varC_dev_loop.simps) simp
next
  case (Suc k)
  then have lt: "i < n" and k: "k = nat (n - (i + 1))" by auto
  have g: "vget x i = Inr (x ! nat i)"
    using Suc.prems lt by (simp add: vget_in)
  have d: "drop (nat i) x = x ! nat i # drop (nat (i + 1)) x"
    using Suc.prems lt by (simp add: Cons_nth_drop_Suc nat_add_distrib)
  have "varC_dev_loop A x n i mx out =
      varC_dev_loop A x n (i + 1) mx
        (fp_add A out (fp_pow A (fp_sub A (x ! nat i) mx) (fp_int A 2)))"
    using lt g by (subst varC_dev_loop.simps) simp
  also have "\<dots> = Inr (foldl (\<lambda>s v. fp_add A s (fp_pow A (fp_sub A v mx) (fp_int A 2)))
      (fp_add A out (fp_pow A (fp_sub A (x ! nat i) mx) (fp_int A 2))) (drop (nat (i + 1)) x))"
    using Suc.hyps(1)[OF k] Suc.prems lt by simp
  finally show ?case
    by (simp add: d)
qed

lemma varC_short: "length x < 2 \<Longrightarrow> varC A x = Inr (fp_na A)"
  by (simp add: varC_def vsize_def)

lemma varC_long: "2 \<le> length x \<Longrightarrow> varC A x = Inr (sample_variance A x)"
  by (simp add: varC_def vsize_def Let_def varC_mean_loop_foldl varC_dev_loop_foldl
      sample_variance_def accumulated_mean_def)

text \<open>
  Dividing each element by \<open>n\<close> and dividing the sum once are different computations:
  the mean of \<open>varC\<close> is the first.
\<close>

lemma accumulated_mean_per_element:
  "accumulated_mean recording [CElem 0, CElem 1] =
     CAdd (CAdd (CInt 0) (CDiv (CElem 0) (CInt 2))) (CDiv (CElem 1) (CInt 2)) \<and>
   accumulated_mean recording [CElem 0, CElem 1] \<noteq>
     CDiv (CAdd (CAdd (CInt 0) (CElem 0)) (CElem 1)) (CInt 2)"
  by (simp add: accumulated_mean_def recording_def)

text \<open>
  C5. In every arithmetic, \<open>varC\<close> returns \<open>NA_REAL\<close>, as a value and not as a failure,
  for every vector of length below 2. For every vector of length \<open>n \<ge> 2\<close> it returns,
  without failing, the sample variance of the specification evaluated in that arithmetic:
  the sum over \<open>i\<close>, in index order, of \<open>pow(x[i] - mean, 2)\<close>, divided by \<open>n - 1\<close>, where
  the mean is the sum over \<open>i\<close>, in index order, of \<open>x[i] / n\<close>.
\<close>

theorem varC_sample_variance:
  "(length x < 2 \<longrightarrow> varC A x = Inr (fp_na A)) \<and>
   (2 \<le> length x \<longrightarrow> varC A x = Inr (sample_variance A x))"
  using varC_short[of x A] varC_long[of x A] by simp

theorem varC_sample_variance_witness:
  "varC recording [CElem 0] = Inr CNa \<and>
   varC recording [CElem 0, CElem 1] =
     Inr (CDiv
       (CAdd
          (CAdd (CInt 0)
             (CPow (CSub (CElem 0)
                      (CAdd (CAdd (CInt 0) (CDiv (CElem 0) (CInt 2))) (CDiv (CElem 1) (CInt 2))))
                (CInt 2)))
          (CPow (CSub (CElem 1)
                   (CAdd (CAdd (CInt 0) (CDiv (CElem 0) (CInt 2))) (CDiv (CElem 1) (CInt 2))))
             (CInt 2)))
       (CInt 1))"
  using varC_sample_variance[of "[CElem 0]" recording]
    varC_sample_variance[of "[CElem 0, CElem 1]" recording]
  by (simp add: sample_variance_def accumulated_mean_def recording_def)

end
